theory Spec2Isabelle
  imports Main "HOL-Library.AList" "HOL-Library.Char_ord" "HOL-Library.List_Lexorder"
begin

section \<open>Strings and JavaScript containers\<close>

text \<open>
  A JavaScript string is modelled as a \<^typ>\<open>string\<close> (a list of characters). A
  \<^verbatim>\<open>Map<string, V>\<close> is an association list with distinct keys in insertion order:
  \<^verbatim>\<open>get\<close> is \<^const>\<open>map_of\<close>, \<^verbatim>\<open>set\<close> is \<^const>\<open>AList.update\<close> (an existing key keeps its
  place), \<^verbatim>\<open>delete\<close> is \<^const>\<open>AList.delete\<close>. A \<^verbatim>\<open>Set<string>\<close> is a list without
  repetition in insertion order.
\<close>

fun startsWith :: "string \<Rightarrow> string \<Rightarrow> bool" where
  "startsWith s [] = True"
| "startsWith [] (p # ps) = False"
| "startsWith (c # cs) (p # ps) = (c = p \<and> startsWith cs ps)"

definition endsWithSlash :: "string \<Rightarrow> bool" where
  "endsWithSlash s = (if s = [] then False else last s = CHR ''/'')"

fun str_includes :: "string \<Rightarrow> string \<Rightarrow> bool" where
  "str_includes [] sub = (sub = [])"
| "str_includes (c # cs) sub = (if startsWith (c # cs) sub then True else str_includes cs sub)"

fun split_on :: "char \<Rightarrow> string \<Rightarrow> string list" where
  "split_on sep [] = [[]]"
| "split_on sep (c # cs) =
     (if c = sep then [] # split_on sep cs
      else (c # hd (split_on sep cs)) # tl (split_on sep cs))"

fun join_with :: "char \<Rightarrow> string list \<Rightarrow> string" where
  "join_with sep [] = []"
| "join_with sep [x] = x"
| "join_with sep (x # y # ys) = x @ sep # join_with sep (y # ys)"

definition set_add :: "string \<Rightarrow> string list \<Rightarrow> string list" where
  "set_add t ts = (if List.member ts t then ts else ts @ [t])"

definition set_delete :: "string \<Rightarrow> string list \<Rightarrow> string list" where
  "set_delete t ts = removeAll t ts"

section \<open>The lock manager (src/webdav/lock-manager.ts)\<close>

datatype lock_scope = Exclusive | Shared

datatype stream_type = ReadStream | WriteStream

text \<open>
  \<^verbatim>\<open>WebDAVLock\<close>. The depth is declared \<^verbatim>\<open>'infinity' | '0'\<close> but is the raw
  \<^verbatim>\<open>Depth\<close> header at run time, so it is a string here. \<^verbatim>\<open>timeout\<close> is in seconds,
  \<^verbatim>\<open>created\<close> in milliseconds since the epoch. The constant field
  \<^verbatim>\<open>type: 'write'\<close> is left out.
\<close>

record webdav_lock =
  lock_token :: string
  lock_path :: string
  lock_owner :: string
  lock_timeout :: int
  lock_created :: int
  lock_depth :: string
  lock_scope :: lock_scope

record stream_info =
  stream_type :: stream_type
  stream_count :: int
  stream_lockToken :: "string option"

record lock_manager =
  locks :: "(string \<times> webdav_lock) list"
  pathLocks :: "(string \<times> string list) list"
  activeStreams :: "(string \<times> stream_info) list"
  defaultTimeout :: int

text \<open>\<^verbatim>\<open>new LockManager(defaultTimeout)\<close>; the default of the parameter is 3600.\<close>

definition new_LockManager :: "int option \<Rightarrow> lock_manager" where
  "new_LockManager t =
     \<lparr>locks = [], pathLocks = [], activeStreams = [],
      defaultTimeout = (case t of None \<Rightarrow> 3600 | Some d \<Rightarrow> d)\<rparr>"

text \<open>The private \<^verbatim>\<open>LockManager.normalizePath\<close>.\<close>

definition lm_normalizePath :: "string \<Rightarrow> string" where
  "lm_normalizePath p =
     (let normalized = (if startsWith p ''/'' then p else CHR ''/'' # p)
      in if length normalized > 1 \<and> endsWithSlash normalized
         then butlast normalized else normalized)"

text \<open>
  \<^verbatim>\<open>isExpired\<close>: the clock \<^verbatim>\<open>new Date()\<close> is the parameter \<open>now\<close> (milliseconds)
  of every operation that reads it.
\<close>

definition isExpired :: "int \<Rightarrow> webdav_lock \<Rightarrow> bool" where
  "isExpired now l = (now > lock_created l + lock_timeout l * 1000)"

text \<open>\<^verbatim>\<open>timeout || this.defaultTimeout\<close>: an absent or zero timeout gives the default.\<close>

definition timeout_or_default :: "lock_manager \<Rightarrow> int option \<Rightarrow> int" where
  "timeout_or_default lm t =
     (case t of None \<Rightarrow> defaultTimeout lm
      | Some n \<Rightarrow> if n = 0 then defaultTimeout lm else n)"

definition removeLock :: "lock_manager \<Rightarrow> string \<Rightarrow> bool \<times> lock_manager" where
  "removeLock lm tok =
     (case map_of (locks lm) tok of
        None \<Rightarrow> (False, lm)
      | Some l \<Rightarrow>
          (True,
           lm\<lparr>locks := AList.delete tok (locks lm),
              pathLocks :=
                (case map_of (pathLocks lm) (lock_path l) of
                   None \<Rightarrow> pathLocks lm
                 | Some pathLockSet \<Rightarrow>
                     (if set_delete tok pathLockSet = []
                      then AList.delete (lock_path l) (pathLocks lm)
                      else AList.update (lock_path l) (set_delete tok pathLockSet)
                             (pathLocks lm)))\<rparr>))"

definition getLock :: "int \<Rightarrow> lock_manager \<Rightarrow> string \<Rightarrow> webdav_lock option \<times> lock_manager" where
  "getLock now lm tok =
     (case map_of (locks lm) tok of
        None \<Rightarrow> (None, lm)
      | Some l \<Rightarrow> if isExpired now l then (None, snd (removeLock lm tok)) else (Some l, lm))"

text \<open>
  The loop of \<^verbatim>\<open>getLocksForPath\<close> over the token set. \<^verbatim>\<open>getLock\<close> may delete the
  token it is called on (and nothing else) from the set being iterated, so the
  iteration runs over the tokens present at the start.
\<close>

fun collectLocks :: "int \<Rightarrow> lock_manager \<Rightarrow> string list \<Rightarrow> webdav_lock list \<times> lock_manager" where
  "collectLocks now lm [] = ([], lm)"
| "collectLocks now lm (tok # toks) =
     (case getLock now lm tok of
        (None, lm1) \<Rightarrow> collectLocks now lm1 toks
      | (Some l, lm1) \<Rightarrow>
          (case collectLocks now lm1 toks of (ls, lm2) \<Rightarrow> (l # ls, lm2)))"

definition getLocksForPath :: "int \<Rightarrow> lock_manager \<Rightarrow> string \<Rightarrow> webdav_lock list \<times> lock_manager" where
  "getLocksForPath now lm p =
     (case map_of (pathLocks lm) (lm_normalizePath p) of
        None \<Rightarrow> ([], lm)
      | Some lockTokens \<Rightarrow> collectLocks now lm lockTokens)"

text \<open>\<^verbatim>\<open>!excludeToken || lock.token !== excludeToken\<close>: an empty string is falsy.\<close>

definition notExcluded :: "string option \<Rightarrow> webdav_lock \<Rightarrow> bool" where
  "notExcluded excludeToken l =
     (case excludeToken of
        None \<Rightarrow> True
      | Some e \<Rightarrow> if e = [] then True else (if lock_token l = e then False else True))"

text \<open>
  The loop of \<^verbatim>\<open>isLocked\<close> over the parents: the counter is \<open>i + 1\<close>, so
  it visits \<open>i = length pathParts - 1, ..., 0\<close> and returns at the first parent that
  holds a depth-infinity lock.
\<close>

fun isLocked_parents ::
  "int \<Rightarrow> lock_manager \<Rightarrow> string list \<Rightarrow> string option \<Rightarrow> nat \<Rightarrow> bool \<times> lock_manager" where
  "isLocked_parents now lm pathParts excludeToken 0 = (False, lm)"
| "isLocked_parents now lm pathParts excludeToken (Suc i) =
     (case getLocksForPath now lm (CHR ''/'' # join_with (CHR ''/'') (take i pathParts)) of
        (ls, lm1) \<Rightarrow>
          if filter (\<lambda>l. lock_depth l = ''infinity'' \<and> notExcluded excludeToken l) ls \<noteq> []
          then (True, lm1)
          else isLocked_parents now lm1 pathParts excludeToken i)"

definition isLocked :: "int \<Rightarrow> lock_manager \<Rightarrow> string \<Rightarrow> string option \<Rightarrow> bool \<times> lock_manager" where
  "isLocked now lm p excludeToken =
     (case getLocksForPath now lm (lm_normalizePath p) of
        (ls, lm1) \<Rightarrow>
          if filter (\<lambda>l. lock_path l = lm_normalizePath p \<and> notExcluded excludeToken l) ls \<noteq> []
          then (True, lm1)
          else isLocked_parents now lm1
                 (filter (\<lambda>part. length part > 0) (split_on (CHR ''/'') (lm_normalizePath p)))
                 excludeToken
                 (length (filter (\<lambda>part. length part > 0)
                            (split_on (CHR ''/'') (lm_normalizePath p)))))"

definition canLock :: "int \<Rightarrow> lock_manager \<Rightarrow> string \<Rightarrow> lock_scope \<Rightarrow> bool \<times> lock_manager" where
  "canLock now lm p sc =
     (if sc = Exclusive
      then (case isLocked now lm (lm_normalizePath p) None of (b, lm1) \<Rightarrow> (\<not> b, lm1))
      else (case getLocksForPath now lm (lm_normalizePath p) of
              (ls, lm1) \<Rightarrow> (filter (\<lambda>l. lock_scope l = Exclusive) ls = [], lm1)))"

text \<open>
  \<^verbatim>\<open>createLock\<close>. The token \<open>tok\<close> is what \<^verbatim>\<open>generateLockToken\<close> (a version 4
  UUID) returns. \<open>Inl\<close> is the thrown \<^verbatim>\<open>Error\<close> with its message.
\<close>

definition createLock ::
  "int \<Rightarrow> string \<Rightarrow> lock_manager \<Rightarrow> string \<Rightarrow> string \<Rightarrow> lock_scope \<Rightarrow> string \<Rightarrow> int option
     \<Rightarrow> (string + webdav_lock) \<times> lock_manager" where
  "createLock now tok lm p ownr sc dpth tmo =
     (case canLock now lm (lm_normalizePath p) sc of
        (ok, lm1) \<Rightarrow>
          if \<not> ok then (Inl ''Resource is already locked'', lm1)
          else
            (let l = \<lparr>lock_token = tok, lock_path = lm_normalizePath p, lock_owner = ownr,
                       lock_timeout = timeout_or_default lm1 tmo, lock_created = now,
                       lock_depth = dpth, lock_scope = sc\<rparr>
             in (Inr l,
                 lm1\<lparr>locks := AList.update tok l (locks lm1),
                     pathLocks :=
                       AList.update (lm_normalizePath p)
                         (set_add tok
                            (case map_of (pathLocks lm1) (lm_normalizePath p) of
                               None \<Rightarrow> [] | Some s \<Rightarrow> s))
                         (pathLocks lm1)\<rparr>)))"

definition refreshLock ::
  "int \<Rightarrow> lock_manager \<Rightarrow> string \<Rightarrow> int option \<Rightarrow> (string + webdav_lock) \<times> lock_manager" where
  "refreshLock now lm tok tmo =
     (case map_of (locks lm) tok of
        None \<Rightarrow> (Inl ''Lock not found'', lm)
      | Some l \<Rightarrow>
          if isExpired now l then (Inl ''Lock has expired'', snd (removeLock lm tok))
          else
            (let l' = l\<lparr>lock_timeout := timeout_or_default lm tmo, lock_created := now\<rparr>
             in (Inr l', lm\<lparr>locks := AList.update tok l' (locks lm)\<rparr>)))"

definition hasValidLockToken :: "int \<Rightarrow> lock_manager \<Rightarrow> string \<Rightarrow> string \<Rightarrow> bool \<times> lock_manager" where
  "hasValidLockToken now lm p tok =
     (case getLock now lm tok of
        (None, lm1) \<Rightarrow> (False, lm1)
      | (Some l, lm1) \<Rightarrow>
          if lock_path l = lm_normalizePath p then (True, lm1)
          else if lock_depth l = ''infinity'' \<and> startsWith (lm_normalizePath p) (lock_path l)
          then (True, lm1)
          else (False, lm1))"

definition cleanupExpiredLocks :: "int \<Rightarrow> lock_manager \<Rightarrow> lock_manager" where
  "cleanupExpiredLocks now lm =
     fold (\<lambda>tok m. snd (removeLock m tok))
       (map fst (filter (\<lambda>(tok, l). isExpired now l) (locks lm))) lm"

definition removeLocksForPath :: "lock_manager \<Rightarrow> string \<Rightarrow> lock_manager" where
  "removeLocksForPath lm p =
     (case map_of (pathLocks lm) (lm_normalizePath p) of
        None \<Rightarrow> lm
      | Some pathLockSet \<Rightarrow>
          lm\<lparr>locks := fold AList.delete pathLockSet (locks lm),
             pathLocks := AList.delete (lm_normalizePath p) (pathLocks lm)\<rparr>)"

text \<open>
  \<^verbatim>\<open>moveLocksForPath\<close>: the token set of the source is stored under the destination
  key, replacing whatever set was there, and the source key is deleted afterwards
  (also when both keys are the same).
\<close>

definition moveLocksForPath :: "lock_manager \<Rightarrow> string \<Rightarrow> string \<Rightarrow> lock_manager" where
  "moveLocksForPath lm fromPath toPath =
     (case map_of (pathLocks lm) (lm_normalizePath fromPath) of
        None \<Rightarrow> lm
      | Some pathLockSet \<Rightarrow>
          lm\<lparr>locks :=
               fold (\<lambda>tok ls. case map_of ls tok of
                                None \<Rightarrow> ls
                              | Some l \<Rightarrow>
                                  AList.update tok (l\<lparr>lock_path := lm_normalizePath toPath\<rparr>) ls)
                 pathLockSet (locks lm),
             pathLocks :=
               AList.delete (lm_normalizePath fromPath)
                 (AList.update (lm_normalizePath toPath) pathLockSet (pathLocks lm))\<rparr>)"

subsection \<open>Stream locks\<close>

definition acquireStreamLock ::
  "lock_manager \<Rightarrow> string \<Rightarrow> stream_type \<Rightarrow> string option \<Rightarrow> bool \<times> lock_manager" where
  "acquireStreamLock lm p ty tok =
     (case map_of (activeStreams lm) (lm_normalizePath p) of
        None \<Rightarrow>
          (True,
           lm\<lparr>activeStreams :=
                AList.update (lm_normalizePath p)
                  \<lparr>stream_type = ty, stream_count = 1, stream_lockToken = tok\<rparr>
                  (activeStreams lm)\<rparr>)
      | Some activeStream \<Rightarrow>
          if ty = WriteStream \<or> stream_type activeStream = WriteStream then (False, lm)
          else if ty = ReadStream \<and> stream_type activeStream = ReadStream
          then (True,
                lm\<lparr>activeStreams :=
                     AList.update (lm_normalizePath p)
                       (activeStream\<lparr>stream_count := stream_count activeStream + 1\<rparr>)
                       (activeStreams lm)\<rparr>)
          else (False, lm))"

definition releaseStreamLock :: "lock_manager \<Rightarrow> string \<Rightarrow> lock_manager" where
  "releaseStreamLock lm p =
     (case map_of (activeStreams lm) (lm_normalizePath p) of
        None \<Rightarrow> lm
      | Some activeStream \<Rightarrow>
          if stream_count activeStream - 1 \<le> 0
          then lm\<lparr>activeStreams := AList.delete (lm_normalizePath p) (activeStreams lm)\<rparr>
          else lm\<lparr>activeStreams :=
                    AList.update (lm_normalizePath p)
                      (activeStream\<lparr>stream_count := stream_count activeStream - 1\<rparr>)
                      (activeStreams lm)\<rparr>)"

definition hasActiveStream :: "lock_manager \<Rightarrow> string \<Rightarrow> stream_type option \<Rightarrow> bool" where
  "hasActiveStream lm p ty =
     (case map_of (activeStreams lm) (lm_normalizePath p) of
        None \<Rightarrow> False
      | Some activeStream \<Rightarrow>
          (case ty of None \<Rightarrow> True | Some t \<Rightarrow> stream_type activeStream = t))"

definition hasWebDAVLock ::
  "int \<Rightarrow> lock_manager \<Rightarrow> string \<Rightarrow> lock_scope option \<Rightarrow> bool \<times> lock_manager" where
  "hasWebDAVLock now lm p ty =
     (case isLocked now lm (lm_normalizePath p) None of
        (b, lm1) \<Rightarrow>
          if \<not> b then (False, lm1)
          else (case ty of
                  None \<Rightarrow> (True, lm1)
                | Some t \<Rightarrow>
                    (case getLocksForPath now lm1 (lm_normalizePath p) of
                       (ls, lm2) \<Rightarrow> (list_ex (\<lambda>l. lock_scope l = t) ls, lm2))))"

definition hasStreamingConflict :: "lock_manager \<Rightarrow> string \<Rightarrow> stream_type \<Rightarrow> bool" where
  "hasStreamingConflict lm p operation =
     (case map_of (activeStreams lm) (lm_normalizePath p) of
        None \<Rightarrow> False
      | Some activeStream \<Rightarrow>
          if operation = WriteStream then True
          else if operation = ReadStream \<and> stream_type activeStream = WriteStream then True
          else False)"

section \<open>The path normalizer (WebDAVServer.normalizePath)\<close>

subsection \<open>decodeURIComponent\<close>

text \<open>
  The built-in \<^verbatim>\<open>decodeURIComponent\<close>, after ECMAScript's \<^verbatim>\<open>Decode\<close>: every
  \<^verbatim>\<open>%XX\<close> with two hexadecimal digits becomes the byte \<open>XX\<close>; an escaped byte of
  128 or more must start a well-formed UTF-8 sequence whose other bytes are escaped
  too; anything else throws \<^verbatim>\<open>URIError\<close> (\<open>None\<close>). Strings are read as their
  UTF-8 bytes. A decoded character is paired with \<open>True\<close>, a character copied
  from the input with \<open>False\<close>.
\<close>

definition hex_value :: "char \<Rightarrow> nat option" where
  "hex_value c =
     (let n = (of_char c :: nat)
      in if 48 \<le> n \<and> n \<le> 57 then Some (n - 48)
         else if 65 \<le> n \<and> n \<le> 70 then Some (n - 55)
         else if 97 \<le> n \<and> n \<le> 102 then Some (n - 87)
         else None)"

fun pct_bytes :: "string \<Rightarrow> (char \<times> bool) list option" where
  "pct_bytes [] = Some []"
| "pct_bytes (c # cs) =
     (if c = CHR ''%''
      then (case cs of
              h1 # h2 # rest \<Rightarrow>
                (case hex_value h1 of
                   None \<Rightarrow> None
                 | Some a \<Rightarrow>
                     (case hex_value h2 of
                        None \<Rightarrow> None
                      | Some b \<Rightarrow>
                          (case pct_bytes rest of
                             None \<Rightarrow> None
                           | Some r \<Rightarrow> Some ((char_of (16 * a + b), True) # r))))
            | _ \<Rightarrow> None)
      else (case pct_bytes cs of None \<Rightarrow> None | Some r \<Rightarrow> Some ((c, False) # r)))"

definition escaped_in :: "char \<times> bool \<Rightarrow> nat \<Rightarrow> nat \<Rightarrow> bool" where
  "escaped_in cb lo hi = (snd cb \<and> lo \<le> (of_char (fst cb) :: nat) \<and> (of_char (fst cb) :: nat) \<le> hi)"

fun utf8_ok :: "(char \<times> bool) list \<Rightarrow> bool" where
  "utf8_ok [] = True"
| "utf8_ok (cb # r) =
     (let b = (of_char (fst cb) :: nat)
      in if snd cb \<and> 128 \<le> b
         then (if 194 \<le> b \<and> b \<le> 223
               then (case r of
                       c1 # r1 \<Rightarrow> escaped_in c1 128 191 \<and> utf8_ok r1
                     | _ \<Rightarrow> False)
               else if 224 \<le> b \<and> b \<le> 239
               then (case r of
                       c1 # c2 # r2 \<Rightarrow>
                         escaped_in c1 (if b = 224 then 160 else 128) (if b = 237 then 159 else 191)
                         \<and> escaped_in c2 128 191 \<and> utf8_ok r2
                     | _ \<Rightarrow> False)
               else if 240 \<le> b \<and> b \<le> 244
               then (case r of
                       c1 # c2 # c3 # r3 \<Rightarrow>
                         escaped_in c1 (if b = 240 then 144 else 128) (if b = 244 then 143 else 191)
                         \<and> escaped_in c2 128 191 \<and> escaped_in c3 128 191 \<and> utf8_ok r3
                     | _ \<Rightarrow> False)
               else False)
         else utf8_ok r)"

definition decodeURIComponent :: "string \<Rightarrow> string option" where
  "decodeURIComponent s =
     (case pct_bytes s of
        None \<Rightarrow> None
      | Some bs \<Rightarrow> if utf8_ok bs then Some (map fst bs) else None)"

subsection \<open>path.posix.normalize\<close>

text \<open>
  Node's \<^verbatim>\<open>path.posix.normalize\<close>. Its \<^verbatim>\<open>normalizeString\<close> scans the characters and
  keeps the result's segments as a stack: an empty segment and \<^verbatim>\<open>.\<close> are skipped,
  \<^verbatim>\<open>..\<close> pops the last segment unless there is none or it is \<^verbatim>\<open>..\<close> itself (then it
  is pushed when the path is relative, \<open>allowAboveRoot\<close>, and dropped otherwise), any other
  segment is pushed. The stack is the list \<open>res\<close>, last segment last.
\<close>

fun normalizeString_segs :: "bool \<Rightarrow> string list \<Rightarrow> string list \<Rightarrow> string list" where
  "normalizeString_segs allowAboveRoot res [] = res"
| "normalizeString_segs allowAboveRoot res (seg # segs) =
     (if seg = [] \<or> seg = ''.'' then normalizeString_segs allowAboveRoot res segs
      else if seg = ''..''
      then (if res = [] then
              (if allowAboveRoot then normalizeString_segs allowAboveRoot (res @ [''..'']) segs
               else normalizeString_segs allowAboveRoot res segs)
            else if last res = ''..'' then
              (if allowAboveRoot then normalizeString_segs allowAboveRoot (res @ [''..'']) segs
               else normalizeString_segs allowAboveRoot res segs)
            else normalizeString_segs allowAboveRoot (butlast res) segs)
      else normalizeString_segs allowAboveRoot (res @ [seg]) segs)"

definition normalizeString :: "string \<Rightarrow> bool \<Rightarrow> string" where
  "normalizeString p allowAboveRoot =
     join_with (CHR ''/'') (normalizeString_segs allowAboveRoot [] (split_on (CHR ''/'') p))"

definition posix_normalize :: "string \<Rightarrow> string" where
  "posix_normalize p =
     (if p = [] then ''.''
      else
        (let isAbsolute = (hd p = CHR ''/'');
             trailingSeparator = (last p = CHR ''/'');
             q = normalizeString p (\<not> isAbsolute)
         in if q = [] then (if isAbsolute then ''/'' else if trailingSeparator then ''./'' else ''.'')
            else (let q' = (if trailingSeparator then q @ ''/'' else q)
                  in if isAbsolute then CHR ''/'' # q' else q')))"

subsection \<open>normalizePath\<close>

text \<open>\<open>None\<close> is the \<^verbatim>\<open>URIError\<close> that \<^verbatim>\<open>decodeURIComponent\<close> throws.\<close>

definition normalizePath :: "string \<Rightarrow> string option" where
  "normalizePath requestPath =
     (case decodeURIComponent requestPath of
        None \<Rightarrow> None
      | Some decoded \<Rightarrow>
          Some
            (let n1 = posix_normalize decoded;
                 n2 = (if startsWith n1 ''/'' then n1 else CHR ''/'' # n1);
                 n3 = (if length n2 > 1 \<and> endsWithSlash n2 then butlast n2 else n2)
             in if str_includes n3 ''..''
                then (let j = join_with (CHR ''/'')
                                (filter (\<lambda>segment. segment \<noteq> ''..'') (split_on (CHR ''/'') n3))
                      in if j = [] then ''/'' else j)
                else n3))"

section \<open>Header parsers of the method engine\<close>

text \<open>
  JavaScript numbers are written as \<^typ>\<open>int\<close>: the values here are byte offsets and
  sizes, exact in a double up to \<open>2^53\<close>. \<^verbatim>\<open>parseInt(s, 10)\<close> skips leading white space,
  reads an optional sign and then the longest run of decimal digits, ignoring whatever
  follows; it is \<^verbatim>\<open>NaN\<close> (\<open>None\<close>) when there is no digit. A header value holds
  characters up to code 255, so the white space that \<^verbatim>\<open>parseInt\<close> skips and that the
  regular expressions' \<^verbatim>\<open>\s\<close> matches is the space, the codes 9 to 13 and the no-break
  space (code 160).
\<close>

definition is_digit :: "char \<Rightarrow> bool" where
  "is_digit c = (48 \<le> (of_char c :: nat) \<and> (of_char c :: nat) \<le> 57)"

definition is_space :: "char \<Rightarrow> bool" where
  "is_space c = ((of_char c :: nat) = 32 \<or> (9 \<le> (of_char c :: nat) \<and> (of_char c :: nat) \<le> 13)
                  \<or> (of_char c :: nat) = 160)"

definition digits_value :: "string \<Rightarrow> nat" where
  "digits_value ds = foldl (\<lambda>acc c. 10 * acc + ((of_char c :: nat) - 48)) 0 ds"

definition js_parseInt :: "string \<Rightarrow> int option" where
  "js_parseInt s =
     (let t = dropWhile is_space s;
          negative = (t \<noteq> [] \<and> hd t = CHR ''-'');
          u = (if t \<noteq> [] \<and> (hd t = CHR ''-'' \<or> hd t = CHR ''+'') then tl t else t);
          ds = takeWhile is_digit u
      in if ds = [] then None
         else Some (if negative then - int (digits_value ds) else int (digits_value ds)))"

text \<open>\<^verbatim>\<open>Number.prototype.toString\<close> on an integer.\<close>

fun show_nat :: "nat \<Rightarrow> string" where
  "show_nat n =
     (if n < 10 then [''0123456789'' ! n]
      else show_nat (n div 10) @ [''0123456789'' ! (n mod 10)])"

declare show_nat.simps [simp del]

definition show_int :: "int \<Rightarrow> string" where
  "show_int i = (if i < 0 then CHR ''-'' # show_nat (nat (- i)) else show_nat (nat i))"

text \<open>
  \<^verbatim>\<open>parseRangeHeader\<close>. The pattern \<^verbatim>\<open>/^bytes=(.+)$/\<close> asks for a non-empty rest without
  a line terminator.
\<close>

definition parseRangeHeader :: "string \<Rightarrow> int \<Rightarrow> (int \<times> int) option" where
  "parseRangeHeader rangeHeader fileSize =
     (if \<not> startsWith rangeHeader ''bytes='' then None
      else
        (let rangeSpec = drop 6 rangeHeader
         in if rangeSpec = [] \<or> CHR 0x0A \<in> set rangeSpec \<or> CHR 0x0D \<in> set rangeSpec then None
            else if CHR ''-'' \<notin> set rangeSpec then None
            else
              (let startStr = takeWhile (\<lambda>c. c \<noteq> CHR ''-'') rangeSpec;
                   endStr = tl (dropWhile (\<lambda>c. c \<noteq> CHR ''-'') rangeSpec)
               in case
                    (if startStr = []
                     then (if endStr = [] then None
                           else (case js_parseInt endStr of
                                   None \<Rightarrow> None
                                 | Some suffix \<Rightarrow>
                                     if suffix \<le> 0 then None
                                     else Some (max 0 (fileSize - suffix), fileSize - 1)))
                     else if endStr = []
                     then (case js_parseInt startStr of
                             None \<Rightarrow> None
                           | Some start \<Rightarrow> if start < 0 then None else Some (start, fileSize - 1))
                     else (case js_parseInt startStr of
                             None \<Rightarrow> None
                           | Some start \<Rightarrow>
                               (case js_parseInt endStr of
                                  None \<Rightarrow> None
                                | Some end \<Rightarrow>
                                    if start < 0 \<or> end < start then None
                                    else Some (start, end))))
                  of
                    None \<Rightarrow> None
                  | Some (start, end) \<Rightarrow>
                      if start \<ge> fileSize then None
                      else Some (start, min end (fileSize - 1)))))"

text \<open>
  \<^verbatim>\<open>parseContentRange\<close>. \<open>content_range_match\<close> is the pattern
  \<^verbatim>\<open>/^bytes\s+(\d+)-(\d+)\/(\d+|\*)$/\<close> with its three groups, \<open>content_total_match\<close> the
  pattern \<^verbatim>\<open>/^bytes\s+\*\/(\d+)$/\<close> with its group.
\<close>

definition after_bytes_space :: "string \<Rightarrow> string option" where
  "after_bytes_space h =
     (if startsWith h ''bytes'' \<and> takeWhile is_space (drop 5 h) \<noteq> []
      then Some (dropWhile is_space (drop 5 h)) else None)"

definition content_range_match :: "string \<Rightarrow> (string \<times> string \<times> string) option" where
  "content_range_match h =
     (case after_bytes_space h of
        None \<Rightarrow> None
      | Some r \<Rightarrow>
          (let g1 = takeWhile is_digit r; r1 = dropWhile is_digit r
           in if g1 = [] \<or> r1 = [] then None
              else if hd r1 \<noteq> CHR ''-'' then None
              else
                (let g2 = takeWhile is_digit (tl r1); r2 = dropWhile is_digit (tl r1)
                 in if g2 = [] \<or> r2 = [] then None
                    else if hd r2 \<noteq> CHR ''/'' then None
                    else if tl r2 = ''*'' then Some (g1, g2, ''*'')
                    else if tl r2 \<noteq> [] \<and> dropWhile is_digit (tl r2) = []
                    then Some (g1, g2, tl r2)
                    else None)))"

definition content_total_match :: "string \<Rightarrow> string option" where
  "content_total_match h =
     (case after_bytes_space h of
        None \<Rightarrow> None
      | Some r \<Rightarrow>
          if startsWith r ''*/'' \<and> drop 2 r \<noteq> [] \<and> dropWhile is_digit (drop 2 r) = []
          then Some (drop 2 r) else None)"

record content_range =
  cr_start :: int
  cr_end :: "int option"
  cr_total :: "int option"

definition parseContentRange :: "string \<Rightarrow> content_range option" where
  "parseContentRange contentRangeHeader =
     (case content_total_match contentRangeHeader of
        Some g \<Rightarrow> Some \<lparr>cr_start = 0, cr_end = None, cr_total = js_parseInt g\<rparr>
      | None \<Rightarrow>
          (case content_range_match contentRangeHeader of
             None \<Rightarrow> None
           | Some (g1, g2, g3) \<Rightarrow>
               (case js_parseInt g1 of
                  None \<Rightarrow> None
                | Some start \<Rightarrow>
                    (case js_parseInt g2 of
                       None \<Rightarrow> None
                     | Some end \<Rightarrow>
                         if start < 0 \<or> end < start then None
                         else Some \<lparr>cr_start = start, cr_end = Some end,
                                    cr_total = (if g3 = ''*'' then None else js_parseInt g3)\<rparr>))))"

text \<open>
  \<^verbatim>\<open>parseTimeout\<close>: the pattern \<^verbatim>\<open>/Second-(\d+)/i\<close> is searched anywhere in the header.
\<close>

fun second_match :: "string \<Rightarrow> string option" where
  "second_match [] = None"
| "second_match (c # cs) =
     (if length (c # cs) \<ge> 7
         \<and> list_all2 (\<lambda>x (l, u). x = l \<or> x = u) (take 7 (c # cs))
              [(CHR ''s'', CHR ''S''), (CHR ''e'', CHR ''E''), (CHR ''c'', CHR ''C''),
               (CHR ''o'', CHR ''O''), (CHR ''n'', CHR ''N''), (CHR ''d'', CHR ''D''),
               (CHR ''-'', CHR ''-'')]
         \<and> takeWhile is_digit (drop 7 (c # cs)) \<noteq> []
      then Some (takeWhile is_digit (drop 7 (c # cs)))
      else second_match cs)"

definition parseTimeout :: "string option \<Rightarrow> int option" where
  "parseTimeout timeoutHeader =
     (case timeoutHeader of
        None \<Rightarrow> None
      | Some h \<Rightarrow> (case second_match h of None \<Rightarrow> None | Some g \<Rightarrow> js_parseInt g))"

text \<open>
  \<^verbatim>\<open>extractLockToken\<close>: the pattern \<^verbatim>\<open>/opaquelocktoken:([^>]+)/\<close>, first in the
  \<^verbatim>\<open>Lock-Token\<close> header when that header is present and not empty, else in \<^verbatim>\<open>If\<close>.
\<close>

fun token_match :: "string \<Rightarrow> string option" where
  "token_match [] = None"
| "token_match (c # cs) =
     (if startsWith (c # cs) ''opaquelocktoken:''
         \<and> takeWhile (\<lambda>x. x \<noteq> CHR ''>'') (drop 16 (c # cs)) \<noteq> []
      then Some (takeWhile (\<lambda>x. x \<noteq> CHR ''>'') (drop 16 (c # cs)))
      else token_match cs)"

definition truthy :: "string option \<Rightarrow> bool" where
  "truthy h = (case h of None \<Rightarrow> False | Some v \<Rightarrow> v \<noteq> [])"

section \<open>The filesystem (src/filesystem)\<close>

datatype resource_type = FileT | CollectionT

text \<open>
  The interface \<^verbatim>\<open>VirtualFileSystem\<close>, restricted to the operations that the modelled
  handlers call. The method engine is written against this interface, so the handlers
  take a record of operations over a state \<open>'fs\<close>. A query returns its value, or
  \<open>Inl\<close> with the message of the error it throws; an operation that changes the
  filesystem returns the error it throws, if any, and the state it leaves. The operations
  that read the clock take \<open>now\<close>.
\<close>

record 'fs vfs =
  vfs_create :: "int \<Rightarrow> 'fs \<Rightarrow> string \<Rightarrow> resource_type \<Rightarrow> string option \<times> 'fs"
  vfs_delete :: "'fs \<Rightarrow> string \<Rightarrow> string option \<times> 'fs"
  vfs_exists :: "'fs \<Rightarrow> string \<Rightarrow> bool"
  vfs_getMembers :: "'fs \<Rightarrow> string \<Rightarrow> string + string list"
  vfs_getType :: "'fs \<Rightarrow> string \<Rightarrow> resource_type option"
  vfs_getStream :: "'fs \<Rightarrow> string \<Rightarrow> (int \<times> int) option \<Rightarrow> string + string"
  vfs_setStream :: "int \<Rightarrow> 'fs \<Rightarrow> string \<Rightarrow> string \<Rightarrow> content_range option \<Rightarrow> string option \<times> 'fs"
  vfs_getSize :: "'fs \<Rightarrow> string \<Rightarrow> string + int"
  vfs_getEtag :: "'fs \<Rightarrow> string \<Rightarrow> string"

subsection \<open>MemoryFileSystem over an in-memory volume\<close>

text \<open>
  \<^verbatim>\<open>MemoryFileSystem\<close> keeps its files in the \<^verbatim>\<open>memfs\<close> library's volume and its
  metadata in the map \<^verbatim>\<open>properties\<close>. The volume is modelled as a map from a path's
  steps (its segments below the root, as \<^verbatim>\<open>memfs\<close> resolves an absolute path) to a
  file with its bytes or a directory; the root, with no steps, is always a directory.
  An error of the library is written as its code, and an operation of the library that
  fails returns the volume as it is at that moment. \<^verbatim>\<open>uuidv4\<close> is a supply of
  identifiers, read at the counter \<open>uuids_used\<close>.
\<close>

datatype fs_node = FileNode string | DirNode

datatype prop_value = PString string | PDate int

type_synonym volume = "(string list \<times> fs_node) list"

record memory_fs =
  volume :: volume
  properties :: "(string \<times> (string \<times> prop_value) list) list"
  uuids_used :: nat

definition dquote :: char where
  "dquote = CHR 0x22"

definition fs_steps :: "string \<Rightarrow> string list" where
  "fs_steps p = normalizeString_segs False [] (split_on (CHR ''/'') p)"

definition node_at :: "volume \<Rightarrow> string list \<Rightarrow> fs_node option" where
  "node_at vol steps = (if steps = [] then Some DirNode else map_of vol steps)"

definition existsSync :: "memory_fs \<Rightarrow> string \<Rightarrow> bool" where
  "existsSync fs p = (case node_at (volume fs) (fs_steps p) of None \<Rightarrow> False | Some n \<Rightarrow> True)"

text \<open>
  \<^verbatim>\<open>fs.mkdirSync(p, {recursive: true})\<close>: walks the steps from the root and creates every
  directory that is missing. It fails when it has to go on below a file; an entry that
  exists at the last step, a file too, is left as it is and nothing is thrown.
\<close>

fun mkdirp :: "volume \<Rightarrow> string list \<Rightarrow> string list \<Rightarrow> string option \<times> volume" where
  "mkdirp vol walked [] = (None, vol)"
| "mkdirp vol walked (step # steps) =
     (case node_at vol (walked @ [step]) of
        None \<Rightarrow> mkdirp (AList.update (walked @ [step]) DirNode vol) (walked @ [step]) steps
      | Some DirNode \<Rightarrow> mkdirp vol (walked @ [step]) steps
      | Some (FileNode content) \<Rightarrow> if steps = [] then (None, vol) else (Some ''ENOTDIR'', vol))"

text \<open>\<^verbatim>\<open>fs.writeFileSync\<close>: the parent must be a directory and the path not one.\<close>

definition writeFileSync :: "volume \<Rightarrow> string list \<Rightarrow> string \<Rightarrow> string option \<times> volume" where
  "writeFileSync vol steps content =
     (if steps = [] then (Some ''EISDIR'', vol)
      else (case node_at vol (butlast steps) of
              None \<Rightarrow> (Some ''ENOENT'', vol)
            | Some (FileNode c) \<Rightarrow> (Some ''ENOTDIR'', vol)
            | Some DirNode \<Rightarrow>
                (case node_at vol steps of
                   Some DirNode \<Rightarrow> (Some ''EISDIR'', vol)
                 | _ \<Rightarrow> (None, AList.update steps (FileNode content) vol))))"

text \<open>
  \<^verbatim>\<open>fs.readdirSync\<close>: the names of the entries right below a directory, sorted (the
  library sorts the names with \<^verbatim>\<open>Array.prototype.sort\<close>, which compares strings by their
  character codes).
\<close>

definition readdirSync :: "volume \<Rightarrow> string list \<Rightarrow> string list" where
  "readdirSync vol steps =
     sort (map (\<lambda>(k, n). last k) (filter (\<lambda>(k, n). k \<noteq> [] \<and> butlast k = steps) vol))"

text \<open>
  Node's \<^verbatim>\<open>path.posix.dirname\<close>: scanning from the end down to index 1, it skips the
  trailing slashes and the last segment and cuts at the slash before it.
\<close>

definition posix_dirname :: "string \<Rightarrow> string" where
  "posix_dirname p =
     (if p = [] then ''.''
      else
        (let r = dropWhile (\<lambda>c. c \<noteq> CHR ''/'')
                   (dropWhile (\<lambda>c. c = CHR ''/'') (rev (tl p)))
         in if r = [] then (if hd p = CHR ''/'' then ''/'' else ''.'')
            else if hd p = CHR ''/'' \<and> length r = 1 then ''//''
            else take (length r) p))"

text \<open>\<^verbatim>\<open>path.posix.join\<close> of two non-empty strings.\<close>

definition posix_join :: "string \<Rightarrow> string \<Rightarrow> string" where
  "posix_join a b = posix_normalize (a @ CHR ''/'' # b)"

definition setPropertyInternal :: "memory_fs \<Rightarrow> string \<Rightarrow> string \<Rightarrow> prop_value \<Rightarrow> memory_fs" where
  "setPropertyInternal fs filePath property v =
     fs\<lparr>properties :=
          AList.update filePath
            (AList.update property v
               (case map_of (properties fs) filePath of None \<Rightarrow> [] | Some m \<Rightarrow> m))
            (properties fs)\<rparr>"

definition getPropertyInternal :: "memory_fs \<Rightarrow> string \<Rightarrow> string \<Rightarrow> prop_value option" where
  "getPropertyInternal fs filePath property =
     (case map_of (properties fs) filePath of None \<Rightarrow> None | Some m \<Rightarrow> map_of m property)"

definition generateEtag :: "(nat \<Rightarrow> string) \<Rightarrow> memory_fs \<Rightarrow> string \<times> memory_fs" where
  "generateEtag uuidv4 fs =
     (dquote # uuidv4 (uuids_used fs) @ [dquote], fs\<lparr>uuids_used := Suc (uuids_used fs)\<rparr>)"

text \<open>The three \<^verbatim>\<open>setPropertyInternal\<close> calls that end \<^verbatim>\<open>create\<close>.\<close>

definition stamp_created :: "(nat \<Rightarrow> string) \<Rightarrow> int \<Rightarrow> memory_fs \<Rightarrow> string \<Rightarrow> memory_fs" where
  "stamp_created uuidv4 now fs filePath =
     (case generateEtag uuidv4
             (setPropertyInternal (setPropertyInternal fs filePath ''created'' (PDate now))
                filePath ''lastModified'' (PDate now)) of
        (etag, fs1) \<Rightarrow> setPropertyInternal fs1 filePath ''etag'' (PString etag))"

text \<open>The two \<^verbatim>\<open>setPropertyInternal\<close> calls that end \<^verbatim>\<open>setStream\<close>.\<close>

definition stamp_modified :: "(nat \<Rightarrow> string) \<Rightarrow> int \<Rightarrow> memory_fs \<Rightarrow> string \<Rightarrow> memory_fs" where
  "stamp_modified uuidv4 now fs filePath =
     (case generateEtag uuidv4 (setPropertyInternal fs filePath ''lastModified'' (PDate now)) of
        (etag, fs1) \<Rightarrow> setPropertyInternal fs1 filePath ''etag'' (PString etag))"

text \<open>The guarded \<^verbatim>\<open>mkdirSync(parentDir, {recursive: true})\<close> of \<^verbatim>\<open>create\<close> and \<^verbatim>\<open>setStream\<close>.\<close>

definition ensure_parent :: "volume \<Rightarrow> string \<Rightarrow> string option \<times> volume" where
  "ensure_parent vol filePath =
     (if posix_dirname filePath \<noteq> ''/''
      then mkdirp vol [] (fs_steps (posix_dirname filePath))
      else (None, vol))"

definition mfs_create ::
  "(nat \<Rightarrow> string) \<Rightarrow> int \<Rightarrow> memory_fs \<Rightarrow> string \<Rightarrow> resource_type \<Rightarrow> string option \<times> memory_fs" where
  "mfs_create uuidv4 now fs filePath ty =
     (case
        (if ty = CollectionT then mkdirp (volume fs) [] (fs_steps filePath)
         else (case ensure_parent (volume fs) filePath of
                 (Some e, vol1) \<Rightarrow> (Some e, vol1)
               | (None, vol1) \<Rightarrow> writeFileSync vol1 (fs_steps filePath) []))
      of
        (Some e, vol') \<Rightarrow> (Some e, fs\<lparr>volume := vol'\<rparr>)
      | (None, vol') \<Rightarrow> (None, stamp_created uuidv4 now (fs\<lparr>volume := vol'\<rparr>) filePath))"

text \<open>
  \<^verbatim>\<open>delete\<close>: \<^verbatim>\<open>rmSync\<close> with \<^verbatim>\<open>recursive\<close> removes a directory with everything below
  it, \<^verbatim>\<open>unlinkSync\<close> removes a file; the properties of the path itself are dropped.
\<close>

definition mfs_delete :: "memory_fs \<Rightarrow> string \<Rightarrow> string option \<times> memory_fs" where
  "mfs_delete fs filePath =
     (None,
      (if existsSync fs filePath
       then (case node_at (volume fs) (fs_steps filePath) of
               Some DirNode \<Rightarrow>
                 fs\<lparr>volume :=
                      filter (\<lambda>(k, n). take (length (fs_steps filePath)) k \<noteq> fs_steps filePath)
                        (volume fs)\<rparr>
             | _ \<Rightarrow> fs\<lparr>volume := AList.delete (fs_steps filePath) (volume fs)\<rparr>)
       else fs)
      \<lparr>properties := AList.delete filePath (properties fs)\<rparr>)"

definition mfs_getMembers :: "memory_fs \<Rightarrow> string \<Rightarrow> string + string list" where
  "mfs_getMembers fs filePath =
     (case node_at (volume fs) (fs_steps filePath) of
        None \<Rightarrow> Inl (''Path does not exist: '' @ filePath)
      | Some (FileNode c) \<Rightarrow> Inl (''Path is not a collection: '' @ filePath)
      | Some DirNode \<Rightarrow>
          Inr (map (posix_join filePath) (readdirSync (volume fs) (fs_steps filePath))))"

definition mfs_getType :: "memory_fs \<Rightarrow> string \<Rightarrow> resource_type option" where
  "mfs_getType fs filePath =
     (case node_at (volume fs) (fs_steps filePath) of
        None \<Rightarrow> None
      | Some DirNode \<Rightarrow> Some CollectionT
      | Some (FileNode c) \<Rightarrow> Some FileT)"

text \<open>
  \<^verbatim>\<open>getStream\<close>: the bytes that the read stream delivers, from \<^verbatim>\<open>start\<close> to \<^verbatim>\<open>end\<close>
  inclusive when a range is given.
\<close>

definition mfs_getStream :: "memory_fs \<Rightarrow> string \<Rightarrow> (int \<times> int) option \<Rightarrow> string + string" where
  "mfs_getStream fs filePath rng =
     (case node_at (volume fs) (fs_steps filePath) of
        None \<Rightarrow> Inl (''File does not exist: '' @ filePath)
      | Some DirNode \<Rightarrow> Inl ''EISDIR''
      | Some (FileNode c) \<Rightarrow>
          (case rng of
             None \<Rightarrow> Inr c
           | Some (start, end) \<Rightarrow> Inr (take (nat (end - start + 1)) (drop (nat start) c))))"

text \<open>\<^verbatim>\<open>getSize\<close>; the handlers ask for the size of files only, a directory's is written 0.\<close>

definition mfs_getSize :: "memory_fs \<Rightarrow> string \<Rightarrow> string + int" where
  "mfs_getSize fs filePath =
     (case node_at (volume fs) (fs_steps filePath) of
        None \<Rightarrow> Inl (''File does not exist: '' @ filePath)
      | Some DirNode \<Rightarrow> Inr 0
      | Some (FileNode c) \<Rightarrow> Inr (int (length c)))"

text \<open>\<^verbatim>\<open>getEtag\<close>: the stored tag (always a string), or a fresh one when none is stored.\<close>

definition mfs_getEtag :: "(nat \<Rightarrow> string) \<Rightarrow> memory_fs \<Rightarrow> string \<Rightarrow> string" where
  "mfs_getEtag uuidv4 fs filePath =
     (case getPropertyInternal fs filePath ''etag'' of
        Some (PString e) \<Rightarrow> if e = [] then fst (generateEtag uuidv4 fs) else e
      | _ \<Rightarrow> fst (generateEtag uuidv4 fs))"

text \<open>
  \<^verbatim>\<open>Buffer.copy(target, targetStart, 0, sourceEnd)\<close> for \<open>sourceEnd\<close> not negative and at
  most the length of the source.
\<close>

definition buffer_copy :: "string \<Rightarrow> string \<Rightarrow> int \<Rightarrow> int \<Rightarrow> string" where
  "buffer_copy source target targetStart sourceEnd =
     (if targetStart \<ge> int (length target) \<or> sourceEnd \<le> 0 then target
      else
        (let k = min (nat sourceEnd) (length target - nat targetStart)
         in take (nat targetStart) target @ take k source @ drop (nat targetStart + k) target))"

text \<open>
  \<^verbatim>\<open>setStream\<close>, with the whole request body \<open>incoming\<close> as the stream delivers it.
  \<^verbatim>\<open>range.total || ...\<close> and \<^verbatim>\<open>range.end || range.start\<close> take a zero as absent.
\<close>

definition mfs_setStream ::
  "(nat \<Rightarrow> string) \<Rightarrow> int \<Rightarrow> memory_fs \<Rightarrow> string \<Rightarrow> string \<Rightarrow> content_range option
     \<Rightarrow> string option \<times> memory_fs" where
  "mfs_setStream uuidv4 now fs filePath incoming rng =
     (case ensure_parent (volume fs) filePath of
        (Some e, vol1) \<Rightarrow> (Some e, fs\<lparr>volume := vol1\<rparr>)
      | (None, vol1) \<Rightarrow>
          (case rng of
             None \<Rightarrow>
               (case writeFileSync vol1 (fs_steps filePath) incoming of
                  (Some e, vol2) \<Rightarrow> (Some e, fs\<lparr>volume := vol2\<rparr>)
                | (None, vol2) \<Rightarrow> (None, stamp_modified uuidv4 now (fs\<lparr>volume := vol2\<rparr>) filePath))
           | Some r \<Rightarrow>
               (case node_at vol1 (fs_steps filePath) of
                  Some DirNode \<Rightarrow> (Some ''EISDIR'', fs\<lparr>volume := vol1\<rparr>)
                | other \<Rightarrow>
                    (let existingData = (case other of Some (FileNode c) \<Rightarrow> c | _ \<Rightarrow> []);
                         endOrStart = (case cr_end r of
                                         None \<Rightarrow> cr_start r
                                       | Some e \<Rightarrow> if e = 0 then cr_start r else e);
                         fallback = max (int (length existingData)) (endOrStart + 1);
                         totalSize = (case cr_total r of
                                        None \<Rightarrow> fallback
                                      | Some t \<Rightarrow> if t = 0 then fallback else t);
                         buffer = (if int (length existingData) < totalSize
                                   then existingData @
                                        replicate (nat (totalSize - int (length existingData))) (CHR 0x00)
                                   else existingData);
                         endPos = (case cr_end r of
                                     None \<Rightarrow> cr_start r + int (length incoming) - 1
                                   | Some e \<Rightarrow> e);
                         actualEndPos = min endPos (int (length buffer) - 1);
                         writeLength = min (int (length incoming)) (actualEndPos - cr_start r + 1)
                     in if writeLength < 0 then (Some ''ERR_OUT_OF_RANGE'', fs\<lparr>volume := vol1\<rparr>)
                        else
                          (case writeFileSync vol1 (fs_steps filePath)
                                  (buffer_copy incoming buffer (cr_start r) writeLength) of
                             (Some e, vol2) \<Rightarrow> (Some e, fs\<lparr>volume := vol2\<rparr>)
                           | (None, vol2) \<Rightarrow>
                               (None, stamp_modified uuidv4 now (fs\<lparr>volume := vol2\<rparr>) filePath))))))"

text \<open>\<^verbatim>\<open>new MemoryFileSystem()\<close>: the root directory and its three properties.\<close>

definition new_MemoryFileSystem :: "(nat \<Rightarrow> string) \<Rightarrow> int \<Rightarrow> memory_fs" where
  "new_MemoryFileSystem uuidv4 now =
     stamp_created uuidv4 now \<lparr>volume = [], properties = [], uuids_used = 0\<rparr> ''/''"

text \<open>\<^verbatim>\<open>MemoryFileSystem\<close> as an implementation of the interface.\<close>

definition memory_vfs :: "(nat \<Rightarrow> string) \<Rightarrow> memory_fs vfs" where
  "memory_vfs uuidv4 =
     \<lparr>vfs_create = mfs_create uuidv4,
      vfs_delete = mfs_delete,
      vfs_exists = existsSync,
      vfs_getMembers = mfs_getMembers,
      vfs_getType = mfs_getType,
      vfs_getStream = mfs_getStream,
      vfs_setStream = mfs_setStream uuidv4,
      vfs_getSize = mfs_getSize,
      vfs_getEtag = mfs_getEtag uuidv4\<rparr>"

section \<open>The method engine (WebDAVServer)\<close>

text \<open>
  A request carries the raw path, the headers that the modelled handlers read, and the
  body (for \<^verbatim>\<open>LOCK\<close> the text \<^verbatim>\<open>req.body.toString()\<close>, for \<^verbatim>\<open>PUT\<close> the bytes of the
  upload). A response is the status, the headers set by the handler in order, and the
  body. One request is handled at a time and reads the clock once.
\<close>

record request =
  req_path :: string
  hdr_depth :: "string option"
  hdr_timeout :: "string option"
  hdr_lock_token :: "string option"
  hdr_if :: "string option"
  hdr_range :: "string option"
  hdr_content_range :: "string option"
  req_body :: string

record response =
  res_status :: nat
  res_headers :: "(string \<times> string) list"
  res_body :: string

record 'fs server =
  filesystem :: 'fs
  lockManager :: lock_manager

definition respond :: "nat \<Rightarrow> (string \<times> string) list \<Rightarrow> string \<Rightarrow> response" where
  "respond code hs b = \<lparr>res_status = code, res_headers = hs, res_body = b\<rparr>"

text \<open>
  An error that leaves a handler is caught by the dispatcher in \<^verbatim>\<open>createMiddleware\<close>,
  which answers 500 with the error's message.
\<close>

definition uncaught :: "string \<Rightarrow> response" where
  "uncaught message = respond 500 [] message"

text \<open>A header used as a condition: absent and empty are both falsy.\<close>

definition header_value :: "string option \<Rightarrow> string option" where
  "header_value h = (case h of None \<Rightarrow> None | Some v \<Rightarrow> if v = [] then None else Some v)"

definition extractLockToken :: "request \<Rightarrow> string option" where
  "extractLockToken req =
     (case header_value (hdr_lock_token req) of
        Some lockTokenHeader \<Rightarrow> token_match lockTokenHeader
      | None \<Rightarrow>
          (case header_value (hdr_if req) of
             Some ifHeader \<Rightarrow> token_match ifHeader
           | None \<Rightarrow> None))"

text \<open>\<^verbatim>\<open>generateDirectoryListing\<close>; the template is written line by line.\<close>

definition listing_row :: "string \<Rightarrow> string" where
  "listing_row member =
     ''<tr><td><a href='' @ [dquote] @ member @ [dquote] @ ''>'' @
     (if last (split_on (CHR ''/'') member) = [] then member
      else last (split_on (CHR ''/'') member)) @
     ''</a></td></tr>''"

definition generateDirectoryListing :: "string \<Rightarrow> string list \<Rightarrow> string" where
  "generateDirectoryListing p members =
     join_with (CHR 0x0A)
       [[],
        ''<!DOCTYPE html>'',
        ''<html>'',
        ''<head>'',
        ''    <title>Directory listing for '' @ p @ ''</title>'',
        ''    <style>'',
        ''        body { font-family: Arial, sans-serif; margin: 40px; }'',
        ''        table { border-collapse: collapse; width: 100%; }'',
        ''        th, td { text-align: left; padding: 8px; border-bottom: 1px solid #ddd; }'',
        ''        a { text-decoration: none; color: #0066cc; }'',
        ''        a:hover { text-decoration: underline; }'',
        ''    </style>'',
        ''</head>'',
        ''<body>'',
        ''    <h1>Directory listing for '' @ p @ ''</h1>'',
        ''    <table>'',
        ''        <thead>'',
        ''            <tr><th>Name</th></tr>'',
        ''        </thead>'',
        ''        <tbody>'',
        ''            '' @ join_with (CHR 0x0A) (map listing_row members),
        ''        </tbody>'',
        ''    </table>'',
        ''</body>'',
        ''</html>'']"

text \<open>
  \<^verbatim>\<open>handleGet\<close>. The state returned is the one at the handler's return: when a body
  is streamed, the read stream lock is still held and is released by the response's
  \<^verbatim>\<open>finish\<close> and \<^verbatim>\<open>close\<close> events. \<^verbatim>\<open>res.send\<close> with no status set answers 200.
  \<open>sendFile\<close> is the \<^verbatim>\<open>try\<close> block, entered with the read stream lock held.
\<close>

definition sendFile :: "'fs vfs \<Rightarrow> request \<Rightarrow> 'fs server \<Rightarrow> lock_manager \<Rightarrow> string \<Rightarrow> response \<times> 'fs server" where
  "sendFile fsys req s lm2 p =
     (case vfs_getSize fsys (filesystem s) p of
        Inl e \<Rightarrow> (uncaught e, s\<lparr>lockManager := releaseStreamLock lm2 p\<rparr>)
      | Inr fileSize \<Rightarrow>
          (case header_value (hdr_range req) of
             Some rangeHeader \<Rightarrow>
               (case parseRangeHeader rangeHeader fileSize of
                  None \<Rightarrow>
                    (respond 416
                       [(''Content-Range'', ''bytes */'' @ show_int fileSize),
                        (''Accept-Ranges'', ''bytes'')] [],
                     s\<lparr>lockManager := lm2\<rparr>)
                | Some (start, end) \<Rightarrow>
                    (case vfs_getStream fsys (filesystem s) p (Some (start, end)) of
                       Inl e \<Rightarrow> (uncaught e, s\<lparr>lockManager := releaseStreamLock lm2 p\<rparr>)
                     | Inr content \<Rightarrow>
                         (respond 206
                            [(''Content-Range'',
                              ''bytes '' @ show_int start @ ''-'' @ show_int end
                                @ ''/'' @ show_int fileSize),
                             (''Content-Length'', show_int (end - start + 1)),
                             (''Accept-Ranges'', ''bytes''),
                             (''ETag'', vfs_getEtag fsys (filesystem s) p)]
                            content,
                          s\<lparr>lockManager := lm2\<rparr>)))
           | None \<Rightarrow>
               (case vfs_getStream fsys (filesystem s) p None of
                  Inl e \<Rightarrow> (uncaught e, s\<lparr>lockManager := releaseStreamLock lm2 p\<rparr>)
                | Inr content \<Rightarrow>
                    (respond 200
                       [(''Content-Length'', show_int fileSize),
                        (''ETag'', vfs_getEtag fsys (filesystem s) p),
                        (''Accept-Ranges'', ''bytes'')]
                       content,
                     s\<lparr>lockManager := lm2\<rparr>))))"

definition handleGet :: "'fs vfs \<Rightarrow> int \<Rightarrow> request \<Rightarrow> 'fs server \<Rightarrow> response \<times> 'fs server" where
  "handleGet fsys now req s =
     (case normalizePath (req_path req) of
        None \<Rightarrow> (uncaught ''URI malformed'', s)
      | Some p \<Rightarrow>
          if \<not> vfs_exists fsys (filesystem s) p then (respond 404 [] [], s)
          else if vfs_getType fsys (filesystem s) p = Some CollectionT
          then (case vfs_getMembers fsys (filesystem s) p of
                  Inl e \<Rightarrow> (uncaught e, s)
                | Inr members \<Rightarrow>
                    (respond 200 [(''Content-Type'', ''text/html'')]
                       (generateDirectoryListing p members), s))
          else
            (case hasWebDAVLock now (lockManager s) p (Some Exclusive) of
               (locked, lm1) \<Rightarrow>
                 if locked then (respond 423 [] [], s\<lparr>lockManager := lm1\<rparr>)
                 else if hasStreamingConflict lm1 p ReadStream
                 then (respond 503 [(''Retry-After'', ''1'')] [], s\<lparr>lockManager := lm1\<rparr>)
                 else
                   (case acquireStreamLock lm1 p ReadStream None of
                      (acquired, lm2) \<Rightarrow>
                        if \<not> acquired
                        then (respond 503 [(''Retry-After'', ''1'')] [], s\<lparr>lockManager := lm2\<rparr>)
                        else sendFile fsys req s lm2 p)))"

text \<open>
  The lock check that opens \<^verbatim>\<open>handlePut\<close>, and with \<^verbatim>\<open>isLocked\<close> in place of
  \<^verbatim>\<open>hasWebDAVLock\<close> \<^verbatim>\<open>handleDelete\<close>: \<open>True\<close> when the request is refused with 423.
  \<^verbatim>\<open>hasValidLockToken\<close> is called only when the request carries a token.
\<close>

definition token_refused ::
  "int \<Rightarrow> bool \<times> lock_manager \<Rightarrow> string \<Rightarrow> string option \<Rightarrow> bool \<times> lock_manager" where
  "token_refused now locked_lm p lockToken =
     (case locked_lm of
        (locked, lm1) \<Rightarrow>
          if locked
          then (case lockToken of
                  None \<Rightarrow> (True, lm1)
                | Some tok \<Rightarrow>
                    (case hasValidLockToken now lm1 p tok of (valid, lm2) \<Rightarrow> (\<not> valid, lm2)))
          else (False, lm1))"

text \<open>
  \<^verbatim>\<open>handlePut\<close>. The creation before \<^verbatim>\<open>setStream\<close> ignores its own error; an error
  of \<^verbatim>\<open>setStream\<close> leaves the handler after the \<^verbatim>\<open>finally\<close> block has released the
  stream lock.
\<close>

definition handlePut :: "'fs vfs \<Rightarrow> int \<Rightarrow> request \<Rightarrow> 'fs server \<Rightarrow> response \<times> 'fs server" where
  "handlePut fsys now req s =
     (case normalizePath (req_path req) of
        None \<Rightarrow> (uncaught ''URI malformed'', s)
      | Some p \<Rightarrow>
          (case token_refused now (hasWebDAVLock now (lockManager s) p None) p
                  (extractLockToken req) of
             (refused, lm1) \<Rightarrow>
               if refused then (respond 423 [] [], s\<lparr>lockManager := lm1\<rparr>)
               else if hasStreamingConflict lm1 p WriteStream
               then (respond 503 [(''Retry-After'', ''1'')] [], s\<lparr>lockManager := lm1\<rparr>)
               else
                 (case acquireStreamLock lm1 p WriteStream (extractLockToken req) of
                    (acquired, lm2) \<Rightarrow>
                      if \<not> acquired
                      then (respond 503 [(''Retry-After'', ''1'')] [], s\<lparr>lockManager := lm2\<rparr>)
                      else
                        (case (case header_value (hdr_content_range req) of
                                 None \<Rightarrow> Inr None
                               | Some contentRange \<Rightarrow>
                                   (case parseContentRange contentRange of
                                      None \<Rightarrow> Inl ()
                                    | Some parsedRange \<Rightarrow> Inr (Some parsedRange)))
                         of
                           Inl u \<Rightarrow>
                             (respond 416 [(''Accept-Ranges'', ''bytes'')] [],
                              s\<lparr>lockManager := releaseStreamLock lm2 p\<rparr>)
                         | Inr rng \<Rightarrow>
                             (case (if \<not> vfs_exists fsys (filesystem s) p \<and> rng = None
                                    then snd (vfs_create fsys now (filesystem s) p FileT)
                                    else filesystem s) of
                                fs1 \<Rightarrow>
                                  (case vfs_setStream fsys now fs1 p (req_body req) rng of
                                     (Some e, fs2) \<Rightarrow>
                                       (uncaught e,
                                        \<lparr>filesystem = fs2, lockManager = releaseStreamLock lm2 p\<rparr>)
                                   | (None, fs2) \<Rightarrow>
                                       (respond (if vfs_exists fsys (filesystem s) p then 204 else 201)
                                          [(''ETag'', vfs_getEtag fsys fs2 p)] [],
                                        \<lparr>filesystem = fs2,
                                         lockManager = releaseStreamLock lm2 p\<rparr>)))))))"

definition handleDelete :: "'fs vfs \<Rightarrow> int \<Rightarrow> request \<Rightarrow> 'fs server \<Rightarrow> response \<times> 'fs server" where
  "handleDelete fsys now req s =
     (case normalizePath (req_path req) of
        None \<Rightarrow> (uncaught ''URI malformed'', s)
      | Some p \<Rightarrow>
          if \<not> vfs_exists fsys (filesystem s) p then (respond 404 [] [], s)
          else if p = ''/'' then (respond 403 [] [], s)
          else
            (case token_refused now (isLocked now (lockManager s) p None) p
                    (extractLockToken req) of
               (refused, lm1) \<Rightarrow>
                 if refused then (respond 423 [] [], s\<lparr>lockManager := lm1\<rparr>)
                 else
                   (case vfs_delete fsys (filesystem s) p of
                      (Some e, fs1) \<Rightarrow> (uncaught e, \<lparr>filesystem = fs1, lockManager = lm1\<rparr>)
                    | (None, fs1) \<Rightarrow>
                        (respond 204 [] [],
                         \<lparr>filesystem = fs1, lockManager = removeLocksForPath lm1 p\<rparr>))))"

definition handleMkCol :: "'fs vfs \<Rightarrow> int \<Rightarrow> request \<Rightarrow> 'fs server \<Rightarrow> response \<times> 'fs server" where
  "handleMkCol fsys now req s =
     (case normalizePath (req_path req) of
        None \<Rightarrow> (uncaught ''URI malformed'', s)
      | Some p \<Rightarrow>
          if vfs_exists fsys (filesystem s) p then (respond 405 [] [], s)
          else
            (case vfs_create fsys now (filesystem s) p CollectionT of
               (Some e, fs1) \<Rightarrow> (uncaught e, s\<lparr>filesystem := fs1\<rparr>)
             | (None, fs1) \<Rightarrow> (respond 201 [] [], s\<lparr>filesystem := fs1\<rparr>)))"

text \<open>
  The XML codec (\<^verbatim>\<open>WebDAVXML\<close>) rests on the \<^verbatim>\<open>fast-xml-parser\<close> library, so
  \<^verbatim>\<open>handleLock\<close> takes its two operations as parameters: \<^verbatim>\<open>parseLockRequest\<close>, which
  returns the owner and the scope of a \<^verbatim>\<open>lockinfo\<close> body or throws (\<open>Inl\<close>), and the
  text built for the \<^verbatim>\<open>lockdiscovery\<close> answer. \<open>tok\<close> is the identifier that
  \<^verbatim>\<open>generateLockToken\<close> returns for this request.
\<close>

record xml_codec =
  xml_parseLockRequest :: "string \<Rightarrow> string + (string \<times> lock_scope)"
  xml_lockResponse :: "webdav_lock \<Rightarrow> string"

definition handleLock ::
  "'fs vfs \<Rightarrow> xml_codec \<Rightarrow> int \<Rightarrow> string \<Rightarrow> request \<Rightarrow> 'fs server \<Rightarrow> response \<times> 'fs server" where
  "handleLock fsys xml now tok req s =
     (case normalizePath (req_path req) of
        None \<Rightarrow> (uncaught ''URI malformed'', s)
      | Some p \<Rightarrow>
          if \<not> vfs_exists fsys (filesystem s) p then (respond 404 [] [], s)
          else if req_body req = [] then (respond 400 [] ''Lock request body required'', s)
          else
            (case xml_parseLockRequest xml (req_body req) of
               Inl e \<Rightarrow> (uncaught e, s)
             | Inr (ownr, sc) \<Rightarrow>
                 (case createLock now tok (lockManager s) p ownr sc
                         (case header_value (hdr_depth req) of
                            None \<Rightarrow> ''infinity'' | Some d \<Rightarrow> d)
                         (parseTimeout (header_value (hdr_timeout req))) of
                    (Inl e, lm1) \<Rightarrow> (respond 500 [] e, s\<lparr>lockManager := lm1\<rparr>)
                  | (Inr l, lm1) \<Rightarrow>
                      (respond 200
                         [(''Content-Type'', ''application/xml; charset=utf-8''),
                          (''Lock-Token'', ''<opaquelocktoken:'' @ lock_token l @ ''>'')]
                         (xml_lockResponse xml l),
                       s\<lparr>lockManager := lm1\<rparr>))))"

section \<open>Auxiliary notions for the statements\<close>

text \<open>
  A segment that \<^const>\<open>normalizeString_segs\<close> pushes on an absolute path: not empty, not
  \<^verbatim>\<open>.\<close>, not \<^verbatim>\<open>..\<close>, and without a slash.
\<close>

definition clean_segment :: "string \<Rightarrow> bool" where
  "clean_segment s = (s \<noteq> [] \<and> s \<noteq> ''.'' \<and> s \<noteq> ''..'' \<and> CHR ''/'' \<notin> set s)"

text \<open>The segments that \<^verbatim>\<open>path.posix.normalize\<close> keeps of an absolute path.\<close>

definition canonical_segs :: "string \<Rightarrow> string list" where
  "canonical_segs d = normalizeString_segs False [] (split_on (CHR ''/'') d)"

text \<open>
  The two index invariants of the lock manager, as the specification words them:
  (i) every token listed under a path resolves to a lock with that path; (ii) a lock that
  has not expired and is in the token index is listed under its path.
\<close>

definition spec_index_invariant_i :: "lock_manager \<Rightarrow> bool" where
  "spec_index_invariant_i lm =
     list_all (\<lambda>(p, toks).
        list_all (\<lambda>tok. case map_of (locks lm) tok of
                           None \<Rightarrow> False
                         | Some l \<Rightarrow> lock_path l = p) toks)
       (pathLocks lm)"

definition spec_index_invariant_ii :: "int \<Rightarrow> lock_manager \<Rightarrow> bool" where
  "spec_index_invariant_ii now lm =
     list_all (\<lambda>(tok, l).
        if isExpired now l then True
        else (case map_of (pathLocks lm) (lock_path l) of
                None \<Rightarrow> False
              | Some toks \<Rightarrow> List.member toks tok))
       (locks lm)"

text \<open>Every lock of the token index is listed under its own path in the path index.\<close>

definition all_locks_indexed :: "lock_manager \<Rightarrow> bool" where
  "all_locks_indexed lm =
     list_all (\<lambda>(tok, l). case map_of (pathLocks lm) (lock_path l) of
                             None \<Rightarrow> False
                           | Some toks \<Rightarrow> List.member toks tok)
       (locks lm)"

text \<open>The answer to a range that cannot be served: 416 with the size of the file.\<close>

definition range_not_satisfiable :: "response \<Rightarrow> nat \<Rightarrow> bool" where
  "range_not_satisfiable r fileSize =
     (res_status r = 416 \<and>
      res_headers r = [(''Content-Range'', ''bytes */'' @ show_nat fileSize),
                       (''Accept-Ranges'', ''bytes'')])"

section \<open>Scenarios\<close>

text \<open>
  The states and requests at which the theorems below are evaluated: a supply of
  identifiers, a request with no headers and no body, a codec that reads every body as a
  \<^verbatim>\<open>lockinfo\<close> with exclusive scope, and servers reached from a new one by requests.
\<close>

definition example_uuidv4 :: "nat \<Rightarrow> string" where
  "example_uuidv4 n = ''uuid-'' @ show_nat n"

definition request_for :: "string \<Rightarrow> request" where
  "request_for p =
     \<lparr>req_path = p, hdr_depth = None, hdr_timeout = None, hdr_lock_token = None,
      hdr_if = None, hdr_range = None, hdr_content_range = None, req_body = []\<rparr>"

definition example_codec :: xml_codec where
  "example_codec =
     \<lparr>xml_parseLockRequest = (\<lambda>body. Inr (''owner'', Exclusive)),
      xml_lockResponse = (\<lambda>l. ''<d:prop/>'')\<rparr>"

definition new_server :: "memory_fs server" where
  "new_server =
     \<lparr>filesystem = new_MemoryFileSystem example_uuidv4 0, lockManager = new_LockManager None\<rparr>"

text \<open>After \<^verbatim>\<open>MKCOL /a\<close> at time 1 and \<^verbatim>\<open>PUT /a/b\<close> with body \<^verbatim>\<open>hello\<close> at time 2.\<close>

definition server_with_file :: "memory_fs server" where
  "server_with_file =
     snd (handlePut (memory_vfs example_uuidv4) 2 ((request_for ''/a/b'')\<lparr>req_body := ''hello''\<rparr>)
       (snd (handleMkCol (memory_vfs example_uuidv4) 1 (request_for ''/a'') new_server)))"

text \<open>Then \<^verbatim>\<open>LOCK /a/b\<close> with \<^verbatim>\<open>Depth: 0\<close> at time 3, which gives the token \<^verbatim>\<open>T1\<close>.\<close>

definition server_with_locked_file :: "memory_fs server" where
  "server_with_locked_file =
     snd (handleLock (memory_vfs example_uuidv4) example_codec 3 ''T1''
            ((request_for ''/a/b'')\<lparr>hdr_depth := Some ''0'', req_body := ''<lockinfo/>''\<rparr>)
            server_with_file)"

text \<open>
  Then \<^verbatim>\<open>PUT /a/ab\<close> with body \<^verbatim>\<open>x\<close> at time 3: the collection \<^verbatim>\<open>/a\<close> holds \<^verbatim>\<open>b\<close>,
  created first, and \<^verbatim>\<open>ab\<close>.
\<close>

definition server_with_two_files :: "memory_fs server" where
  "server_with_two_files =
     snd (handlePut (memory_vfs example_uuidv4) 3 ((request_for ''/a/ab'')\<lparr>req_body := ''x''\<rparr>)
       server_with_file)"

text \<open>
  The server with the two files, where \<^verbatim>\<open>/a\<close> also holds an exclusive depth-infinity
  lock, taken at time 4, and an active write stream.
\<close>

definition server_with_busy_locked_collection :: "memory_fs server" where
  "server_with_busy_locked_collection =
     server_with_two_files
       \<lparr>lockManager :=
          snd (acquireStreamLock
                 (snd (createLock 4 ''T3'' (lockManager server_with_two_files) ''/a'' ''owner''
                         Exclusive ''infinity'' None))
                 ''/a'' WriteStream None)\<rparr>"

section \<open>Properties\<close>

lemma split_on_not_Nil [simp]: "split_on sep s \<noteq> []"
  by (induction s) auto

subsection \<open>Splitting and joining\<close>

lemma join_split_on: "join_with sep (split_on sep s) = s"
proof (induction s)
  case Nil
  then show ?case by simp
next
  case (Cons c cs)
  obtain y ys where sp: "split_on sep cs = y # ys"
    by (cases "split_on sep cs") auto
  show ?case
  proof (cases "c = sep")
    case True
    with Cons sp show ?thesis by simp
  next
    case False
    with Cons sp show ?thesis by (cases ys) auto
  qed
qed

lemma split_on_no_sep: "sep \<notin> set s \<Longrightarrow> split_on sep s = [s]"
  by (induction s) auto

lemma split_on_append_sep:
  "sep \<notin> set x \<Longrightarrow> split_on sep (x @ sep # r) = x # split_on sep r"
  by (induction x) auto

lemma split_join_with:
  "xs \<noteq> [] \<Longrightarrow> \<forall>x\<in>set xs. sep \<notin> set x \<Longrightarrow> split_on sep (join_with sep xs) = xs"
proof (induction sep xs rule: join_with.induct)
  case (1 sep)
  then show ?case by simp
next
  case (2 sep x)
  then show ?case by (simp add: split_on_no_sep)
next
  case (3 sep x y ys)
  then show ?case by (simp add: split_on_append_sep)
qed

lemma split_on_segments: "x \<in> set (split_on sep s) \<Longrightarrow> sep \<notin> set x \<and> set x \<subseteq> set s"
proof (induction s arbitrary: x)
  case Nil
  then show ?case by simp
next
  case (Cons c cs)
  obtain y ys where sp: "split_on sep cs = y # ys"
    by (cases "split_on sep cs") auto
  have y: "sep \<notin> set y \<and> set y \<subseteq> set cs" using Cons.IH [of y] sp by simp
  have ys: "\<And>z. z \<in> set ys \<Longrightarrow> sep \<notin> set z \<and> set z \<subseteq> set cs" using Cons.IH sp by simp
  show ?case
  proof (cases "c = sep")
    case True
    with Cons.prems sp y ys show ?thesis by auto
  next
    case False
    with Cons.prems sp y ys show ?thesis by auto
  qed
qed

lemma normalizeString_segs_clean:
  "\<forall>s\<in>set res. clean_segment s \<and> set s \<subseteq> A \<Longrightarrow> \<forall>s\<in>set segs. CHR ''/'' \<notin> set s \<and> set s \<subseteq> A \<Longrightarrow>
   \<forall>s\<in>set (normalizeString_segs False res segs). clean_segment s \<and> set s \<subseteq> A"
proof (induction segs arbitrary: res)
  case Nil
  then show ?case by simp
next
  case (Cons seg segs)
  have tl: "\<forall>s\<in>set segs. CHR ''/'' \<notin> set s \<and> set s \<subseteq> A"
    using Cons.prems(2) by simp
  have hd: "CHR ''/'' \<notin> set seg \<and> set seg \<subseteq> A"
    using Cons.prems(2) by simp
  have bl: "\<forall>s\<in>set (butlast res). clean_segment s \<and> set s \<subseteq> A"
    using Cons.prems(1) by (meson in_set_butlastD)
  consider (skip) "seg = [] \<or> seg = ''.''"
    | (up) "seg = ''..''"
    | (push) "seg \<noteq> []" "seg \<noteq> ''.''" "seg \<noteq> ''..''"
    by blast
  then show ?case
  proof cases
    case skip
    then have "normalizeString_segs False res (seg # segs) = normalizeString_segs False res segs"
      by auto
    then show ?thesis using Cons.IH [OF Cons.prems(1) tl] by simp
  next
    case up
    then have "normalizeString_segs False res (seg # segs) = normalizeString_segs False res segs
        \<or> normalizeString_segs False res (seg # segs) = normalizeString_segs False (butlast res) segs"
      by simp
    then show ?thesis using Cons.IH [OF Cons.prems(1) tl] Cons.IH [OF bl tl] by metis
  next
    case push
    have ext: "\<forall>s\<in>set (res @ [seg]). clean_segment s \<and> set s \<subseteq> A"
      using Cons.prems(1) hd push by (simp add: clean_segment_def)
    have "normalizeString_segs False res (seg # segs) = normalizeString_segs False (res @ [seg]) segs"
      using push by simp
    then show ?thesis using Cons.IH [OF ext tl] by simp
  qed
qed

lemma normalizeString_segs_id:
  "\<forall>s\<in>set segs. clean_segment s \<Longrightarrow> normalizeString_segs a res segs = res @ segs"
  by (induction segs arbitrary: res) (auto simp: clean_segment_def)

lemma join_with_Nil_Cons: "xs \<noteq> [] \<Longrightarrow> join_with sep ([] # xs) = sep # join_with sep xs"
  by (cases xs) auto

lemma join_with_chars: "set (join_with sep xs) \<subseteq> insert sep (\<Union> (set ` set xs))"
  by (induction sep xs rule: join_with.induct) auto

lemma join_with_nonempty: "xs \<noteq> [] \<Longrightarrow> \<forall>x\<in>set xs. x \<noteq> [] \<Longrightarrow> join_with sep xs \<noteq> []"
  by (induction sep xs rule: join_with.induct) auto

lemma last_join_with:
  "xs \<noteq> [] \<Longrightarrow> \<forall>x\<in>set xs. x \<noteq> [] \<Longrightarrow> last (join_with sep xs) = last (last xs)"
  by (induction sep xs rule: join_with.induct) (auto simp: join_with_nonempty)

lemma pct_bytes_plain: "CHR ''%'' \<notin> set s \<Longrightarrow> pct_bytes s = Some (map (\<lambda>c. (c, False)) s)"
  by (induction s) auto

lemma utf8_ok_plain: "utf8_ok (map (\<lambda>c. (c, False)) s)"
  by (induction s) auto

lemma decodeURIComponent_plain: "CHR ''%'' \<notin> set s \<Longrightarrow> decodeURIComponent s = Some s"
  by (simp add: decodeURIComponent_def pct_bytes_plain utf8_ok_plain comp_def)

lemma canonical_segs_clean:
  "s \<in> set (canonical_segs d) \<Longrightarrow> clean_segment s \<and> set s \<subseteq> set d"
  using normalizeString_segs_clean [of "[]" "set d" "split_on (CHR ''/'') d"] split_on_segments [of _ "CHR ''/''" d]
  unfolding canonical_segs_def by auto

lemma normalizePath_absolute:
  assumes abs: "startsWith d ''/''" and pct: "CHR ''%'' \<notin> set d"
  shows "normalizePath d = Some (CHR ''/'' # join_with (CHR ''/'') (canonical_segs d))"
proof -
  let ?R = "canonical_segs d"
  let ?p = "join_with (CHR ''/'') ?R"
  obtain rest where d: "d = CHR ''/'' # rest" using abs by (cases d) auto
  have clean: "\<forall>s\<in>set ?R. clean_segment s" using canonical_segs_clean by blast
  have dec: "decodeURIComponent d = Some d" using pct by (rule decodeURIComponent_plain)
  have ns: "normalizeString d False = ?p" by (simp add: normalizeString_def canonical_segs_def)
  show ?thesis
  proof (cases "?R = []")
    case True
    then have "posix_normalize d = ''/''" using d ns by (simp add: posix_normalize_def)
    then show ?thesis using dec True by (simp add: normalizePath_def endsWithSlash_def)
  next
    case False
    have ne: "?p \<noteq> []" using False clean by (intro join_with_nonempty) (auto simp: clean_segment_def)
    have lastp: "last ?p \<noteq> CHR ''/''"
    proof -
      have "last ?p = last (last ?R)" using False clean
        by (intro last_join_with) (auto simp: clean_segment_def)
      moreover have "clean_segment (last ?R)" using False clean by simp
      ultimately show ?thesis by (auto simp: clean_segment_def dest: last_in_set)
    qed
    have pn: "posix_normalize d = CHR ''/'' # ?p \<or> posix_normalize d = CHR ''/'' # ?p @ ''/''"
      using d ns ne by (simp add: posix_normalize_def Let_def)
    have n3: "(let n1 = posix_normalize d;
                   n2 = (if startsWith n1 ''/'' then n1 else CHR ''/'' # n1)
               in (if length n2 > 1 \<and> endsWithSlash n2 then butlast n2 else n2)) = CHR ''/'' # ?p"
      using pn ne lastp by (auto simp: endsWithSlash_def Let_def butlast_append)
    have sp: "split_on (CHR ''/'') (CHR ''/'' # ?p) = [] # ?R"
    proof -
      have "split_on (CHR ''/'') (join_with (CHR ''/'') ([] # ?R)) = [] # ?R"
        using clean by (intro split_join_with) (auto simp: clean_segment_def)
      then show ?thesis using False by (simp add: join_with_Nil_Cons)
    qed
    have flt: "filter (\<lambda>segment. segment \<noteq> ''..'') ([] # ?R) = [] # ?R"
      using clean by (auto simp: clean_segment_def filter_id_conv)
    have "normalizePath d = Some (if str_includes (CHR ''/'' # ?p) ''..''
            then (let j = join_with (CHR ''/'')
                            (filter (\<lambda>segment. segment \<noteq> ''..'') (split_on (CHR ''/'') (CHR ''/'' # ?p)))
                  in if j = [] then ''/'' else j)
            else CHR ''/'' # ?p)"
      using dec n3 unfolding normalizePath_def Let_def by simp
    then show ?thesis using sp flt False by (simp add: join_with_Nil_Cons)
  qed
qed

lemma canonical_segs_fixed:
  "canonical_segs (CHR ''/'' # join_with (CHR ''/'') (canonical_segs d)) = canonical_segs d"
proof (cases "canonical_segs d = []")
  case True
  then show ?thesis by (simp add: canonical_segs_def)
next
  case False
  have clean: "\<forall>s\<in>set (canonical_segs d). clean_segment s" using canonical_segs_clean by blast
  have "split_on (CHR ''/'') (join_with (CHR ''/'') ([] # canonical_segs d)) = [] # canonical_segs d"
    using clean by (intro split_join_with) (auto simp: clean_segment_def)
  then have "split_on (CHR ''/'') (CHR ''/'' # join_with (CHR ''/'') (canonical_segs d)) = [] # canonical_segs d"
    using False by (simp add: join_with_Nil_Cons)
  then have "canonical_segs (CHR ''/'' # join_with (CHR ''/'') (canonical_segs d))
      = normalizeString_segs False [] (canonical_segs d)"
    by (simp add: canonical_segs_def)
  then show ?thesis using clean by (simp add: normalizeString_segs_id)
qed

lemma normalizePath_fixed:
  assumes abs: "startsWith d ''/''" and pct: "CHR ''%'' \<notin> set d"
  shows "normalizePath (CHR ''/'' # join_with (CHR ''/'') (canonical_segs d))
           = Some (CHR ''/'' # join_with (CHR ''/'') (canonical_segs d))"
proof -
  let ?q = "CHR ''/'' # join_with (CHR ''/'') (canonical_segs d)"
  have "set (join_with (CHR ''/'') (canonical_segs d)) \<subseteq> insert (CHR ''/'') (set d)"
    using join_with_chars [of "CHR ''/''" "canonical_segs d"] canonical_segs_clean [of _ d] by auto
  then have "CHR ''%'' \<notin> set ?q" using pct by auto
  moreover have "startsWith ?q ''/''" by simp
  ultimately have "normalizePath ?q = Some (CHR ''/'' # join_with (CHR ''/'') (canonical_segs ?q))"
    by (rule normalizePath_absolute [rotated])
  then show ?thesis by (simp add: canonical_segs_fixed)
qed

subsection \<open>The path normalizer\<close>

text \<open>
  C7 (counterexample). Normalizing twice is not normalizing once when the input holds an
  encoded percent sign: \<^verbatim>\<open>/%2561\<close> normalizes to \<^verbatim>\<open>/%61\<close>, which normalizes to
  \<^verbatim>\<open>/a\<close>.
\<close>

theorem normalizePath_not_idempotent_counterexample:
  "normalizePath ''/%2561'' = Some ''/%61'' \<and>
   Option.bind (normalizePath ''/%2561'') normalizePath = Some ''/a''"
  by code_simp

text \<open>
  C7 (amended). For every input whose percent-decoding succeeds and gives an absolute
  path (starting with a slash) with no percent sign left in it, the normalizer returns a
  path that it maps to itself, so normalizing twice equals normalizing once; and
  \<^verbatim>\<open>/a/./b/../c\<close> normalizes to \<^verbatim>\<open>/a/c\<close>, \<^verbatim>\<open>/..\<close> to \<^verbatim>\<open>/\<close>.
\<close>

theorem normalizePath_idempotent_decoded_absolute:
  assumes dec: "decodeURIComponent x = Some d"
    and abs: "startsWith d ''/''"
    and pct: "CHR ''%'' \<notin> set d"
  shows "(\<exists>p. normalizePath x = Some p \<and> normalizePath p = Some p) \<and>
         normalizePath ''/a/./b/../c'' = Some ''/a/c'' \<and>
         normalizePath ''/..'' = Some ''/''"
proof -
  have "decodeURIComponent d = Some d" using pct by (rule decodeURIComponent_plain)
  then have "normalizePath x = normalizePath d" using dec by (simp add: normalizePath_def)
  then have "normalizePath x = Some (CHR ''/'' # join_with (CHR ''/'') (canonical_segs d))"
    using normalizePath_absolute [OF abs pct] by simp
  then have "\<exists>p. normalizePath x = Some p \<and> normalizePath p = Some p"
    using normalizePath_fixed [OF abs pct] by simp
  moreover have "normalizePath ''/a/./b/../c'' = Some ''/a/c''" by code_simp
  moreover have "normalizePath ''/..'' = Some ''/''" by code_simp
  ultimately show ?thesis by simp
qed

text \<open>
  Witness for C7: \<^verbatim>\<open>/x%20y/./z/\<close> decodes to an absolute path without a percent sign.
\<close>

theorem normalizePath_idempotent_decoded_absolute_witness:
  "decodeURIComponent ''/x%20y/./z/'' = Some ''/x y/./z/'' \<and>
   normalizePath ''/x%20y/./z/'' = Some ''/x y/z'' \<and>
   normalizePath ''/x y/z'' = Some ''/x y/z''"
proof -
  have dec: "decodeURIComponent ''/x%20y/./z/'' = Some ''/x y/./z/''" by code_simp
  have abs: "startsWith ''/x y/./z/'' ''/''" by simp
  have pct: "CHR ''%'' \<notin> set ''/x y/./z/''" by simp
  have val: "normalizePath ''/x%20y/./z/'' = Some ''/x y/z''" by code_simp
  from normalizePath_idempotent_decoded_absolute [OF dec abs pct]
  obtain p where "normalizePath ''/x%20y/./z/'' = Some p" and "normalizePath p = Some p"
    by blast
  with val dec show ?thesis by simp
qed

subsection \<open>The lock manager\<close>

text \<open>
  C2 (the code at the failing input). A depth-infinity lock on \<^verbatim>\<open>/a\<close> with token
  \<^verbatim>\<open>T1\<close>, not expired: the token is accepted for \<^verbatim>\<open>/ab\<close>, which is not under
  \<^verbatim>\<open>/a\<close>, as it is for \<^verbatim>\<open>/a/b\<close>.
\<close>

theorem hasValidLockToken_accepts_string_prefix:
  "fst (hasValidLockToken 5
         (snd (createLock 0 ''T1'' (new_LockManager None) ''/a'' ''u'' Exclusive ''infinity'' None))
         ''/ab'' ''T1'') = True \<and>
   fst (hasValidLockToken 5
         (snd (createLock 0 ''T1'' (new_LockManager None) ''/a'' ''u'' Exclusive ''infinity'' None))
         ''/a/b'' ''T1'') = True"
  by code_simp

text \<open>
  C3 (the code at the failing input). With an exclusive depth-infinity lock on
  \<^verbatim>\<open>/a\<close>, not expired, \<^verbatim>\<open>isLocked\<close> reports \<^verbatim>\<open>/a/b/c\<close> locked and an exclusive
  lock on it is refused, but \<^verbatim>\<open>canLock\<close> allows a shared lock on it.
\<close>

theorem canLock_shared_ignores_ancestor:
  "fst (canLock 5
         (snd (createLock 0 ''T1'' (new_LockManager None) ''/a'' ''u'' Exclusive ''infinity'' None))
         ''/a/b/c'' Shared) = True \<and>
   fst (canLock 5
         (snd (createLock 0 ''T1'' (new_LockManager None) ''/a'' ''u'' Exclusive ''infinity'' None))
         ''/a/b/c'' Exclusive) = False \<and>
   fst (isLocked 5
         (snd (createLock 0 ''T1'' (new_LockManager None) ''/a'' ''u'' Exclusive ''infinity'' None))
         ''/a/b/c'' None) = True"
  by code_simp

text \<open>
  C5 (the code at the failing input). After a lock on \<^verbatim>\<open>/a\<close> (token \<^verbatim>\<open>T1\<close>) and a
  lock on \<^verbatim>\<open>/b\<close> (token \<^verbatim>\<open>T2\<close>) both invariants hold. \<^verbatim>\<open>moveLocksForPath\<close> from
  \<^verbatim>\<open>/a\<close> to \<^verbatim>\<open>/b\<close> then leaves \<^verbatim>\<open>T2\<close>, not expired, in the token index with path
  \<^verbatim>\<open>/b\<close>, while the path index lists only \<^verbatim>\<open>T1\<close> under \<^verbatim>\<open>/b\<close>: invariant (ii)
  is broken.
\<close>

theorem moveLocksForPath_breaks_index_invariant:
  "spec_index_invariant_i
     (snd (createLock 5 ''T2''
        (snd (createLock 0 ''T1'' (new_LockManager None) ''/a'' ''u'' Exclusive ''0'' None))
        ''/b'' ''v'' Exclusive ''0'' None)) \<and>
   spec_index_invariant_ii 10
     (snd (createLock 5 ''T2''
        (snd (createLock 0 ''T1'' (new_LockManager None) ''/a'' ''u'' Exclusive ''0'' None))
        ''/b'' ''v'' Exclusive ''0'' None)) \<and>
   map_of (pathLocks (moveLocksForPath
     (snd (createLock 5 ''T2''
        (snd (createLock 0 ''T1'' (new_LockManager None) ''/a'' ''u'' Exclusive ''0'' None))
        ''/b'' ''v'' Exclusive ''0'' None)) ''/a'' ''/b'')) ''/b'' = Some [''T1''] \<and>
   map_option lock_path (map_of (locks (moveLocksForPath
     (snd (createLock 5 ''T2''
        (snd (createLock 0 ''T1'' (new_LockManager None) ''/a'' ''u'' Exclusive ''0'' None))
        ''/b'' ''v'' Exclusive ''0'' None)) ''/a'' ''/b'')) ''T2'') = Some ''/b'' \<and>
   spec_index_invariant_ii 10 (moveLocksForPath
     (snd (createLock 5 ''T2''
        (snd (createLock 0 ''T1'' (new_LockManager None) ''/a'' ''u'' Exclusive ''0'' None))
        ''/b'' ''v'' Exclusive ''0'' None)) ''/a'' ''/b'') = False"
  by code_simp

subsection \<open>The indexes of the lock manager\<close>

lemma all_locks_indexedD:
  assumes "all_locks_indexed lm" and "(tok, l) \<in> set (locks lm)"
  shows "\<exists>toks. map_of (pathLocks lm) (lock_path l) = Some toks \<and> tok \<in> set toks"
  using assms
  by (auto simp: all_locks_indexed_def list_all_iff split: option.splits)

lemma all_locks_indexedI:
  assumes "\<And>tok l. (tok, l) \<in> set (locks lm) \<Longrightarrow>
             \<exists>toks. map_of (pathLocks lm) (lock_path l) = Some toks \<and> tok \<in> set toks"
  shows "all_locks_indexed lm"
  using assms
  by (fastforce simp: all_locks_indexed_def list_all_iff split: option.splits)

subsection \<open>What the lock queries leave alone\<close>

lemma removeLock_activeStreams: "activeStreams (snd (removeLock lm tok)) = activeStreams lm"
  by (simp add: removeLock_def split: option.splits)

lemma getLock_activeStreams: "activeStreams (snd (getLock now lm tok)) = activeStreams lm"
  by (simp add: getLock_def removeLock_activeStreams split: option.splits)

lemma collectLocks_activeStreams:
  "activeStreams (snd (collectLocks now lm toks)) = activeStreams lm"
proof (induction toks arbitrary: lm)
  case Nil
  then show ?case by simp
next
  case (Cons tok toks)
  obtain r lm1 where g: "getLock now lm tok = (r, lm1)" by (cases "getLock now lm tok")
  have a: "activeStreams lm1 = activeStreams lm" using getLock_activeStreams [of now lm tok] g by simp
  show ?case using g a Cons.IH [of lm1]
    by (cases r) (auto split: prod.splits)
qed

lemma getLocksForPath_activeStreams:
  "activeStreams (snd (getLocksForPath now lm p)) = activeStreams lm"
  by (simp add: getLocksForPath_def collectLocks_activeStreams split: option.splits)

lemma isLocked_parents_activeStreams:
  "activeStreams (snd (isLocked_parents now lm parts ex n)) = activeStreams lm"
proof (induction n arbitrary: lm)
  case 0
  then show ?case by simp
next
  case (Suc i)
  obtain ls lm1 where g: "getLocksForPath now lm (CHR ''/'' # join_with (CHR ''/'') (take i parts)) = (ls, lm1)"
    by (cases "getLocksForPath now lm (CHR ''/'' # join_with (CHR ''/'') (take i parts))")
  have a: "activeStreams lm1 = activeStreams lm"
    using getLocksForPath_activeStreams [of now lm "CHR ''/'' # join_with (CHR ''/'') (take i parts)"] g by simp
  show ?case using g a Suc.IH [of lm1] by simp
qed

lemma isLocked_activeStreams: "activeStreams (snd (isLocked now lm p ex)) = activeStreams lm"
proof -
  obtain ls lm1 where g: "getLocksForPath now lm (lm_normalizePath p) = (ls, lm1)"
    by (cases "getLocksForPath now lm (lm_normalizePath p)")
  have a: "activeStreams lm1 = activeStreams lm"
    using getLocksForPath_activeStreams [of now lm "lm_normalizePath p"] g by simp
  show ?thesis using g a by (simp add: isLocked_def isLocked_parents_activeStreams)
qed

lemma hasWebDAVLock_activeStreams:
  "activeStreams (snd (hasWebDAVLock now lm p ty)) = activeStreams lm"
proof -
  obtain b lm1 where g: "isLocked now lm (lm_normalizePath p) None = (b, lm1)"
    by (cases "isLocked now lm (lm_normalizePath p) None")
  have a: "activeStreams lm1 = activeStreams lm"
    using isLocked_activeStreams [of now lm "lm_normalizePath p" None] g by simp
  obtain ls lm2 where g2: "getLocksForPath now lm1 (lm_normalizePath p) = (ls, lm2)"
    by (cases "getLocksForPath now lm1 (lm_normalizePath p)")
  have a2: "activeStreams lm2 = activeStreams lm1"
    using getLocksForPath_activeStreams [of now lm1 "lm_normalizePath p"] g2 by simp
  show ?thesis using g a g2 a2 by (simp add: hasWebDAVLock_def split: option.splits)
qed

subsection \<open>Every lock stays listed under its path\<close>

lemma removeLock_indexed:
  assumes "all_locks_indexed lm"
  shows "all_locks_indexed (snd (removeLock lm tok))"
proof (cases "map_of (locks lm) tok")
  case None
  then show ?thesis using assms by (simp add: removeLock_def)
next
  case (Some l)
  let ?lm' = "snd (removeLock lm tok)"
  have locks': "locks ?lm' = AList.delete tok (locks lm)"
    using Some by (simp add: removeLock_def)
  show ?thesis
  proof (rule all_locks_indexedI)
    fix t' l'
    assume "(t', l') \<in> set (locks ?lm')"
    then have mem: "(t', l') \<in> set (locks lm)" and ne: "t' \<noteq> tok"
      using locks' by (auto simp: AList.delete_eq)
    from all_locks_indexedD [OF assms mem]
    obtain toks where toks: "map_of (pathLocks lm) (lock_path l') = Some toks" "t' \<in> set toks"
      by blast
    show "\<exists>toks. map_of (pathLocks ?lm') (lock_path l') = Some toks \<and> t' \<in> set toks"
    proof (cases "lock_path l' = lock_path l")
      case True
      then have "t' \<in> set (set_delete tok toks)" using toks ne by (simp add: set_delete_def)
      moreover from this have "set_delete tok toks \<noteq> []" by auto
      ultimately show ?thesis using Some toks True
        by (simp add: removeLock_def update_conv')
    next
      case False
      then show ?thesis using Some toks
        by (auto simp: removeLock_def update_conv' delete_conv' split: option.splits)
    qed
  qed
qed

lemma getLock_indexed:
  "all_locks_indexed lm \<Longrightarrow> all_locks_indexed (snd (getLock now lm tok))"
  by (simp add: getLock_def removeLock_indexed split: option.splits)

lemma collectLocks_indexed:
  "all_locks_indexed lm \<Longrightarrow> all_locks_indexed (snd (collectLocks now lm toks))"
proof (induction toks arbitrary: lm)
  case Nil
  then show ?case by simp
next
  case (Cons tok toks)
  obtain r lm1 where g: "getLock now lm tok = (r, lm1)" by (cases "getLock now lm tok")
  have a: "all_locks_indexed lm1" using getLock_indexed [OF Cons.prems, of now tok] g by simp
  show ?case using g Cons.IH [OF a]
    by (cases r) (auto split: prod.splits)
qed

lemma getLocksForPath_indexed:
  "all_locks_indexed lm \<Longrightarrow> all_locks_indexed (snd (getLocksForPath now lm p))"
  by (simp add: getLocksForPath_def collectLocks_indexed split: option.splits)

lemma isLocked_parents_indexed:
  "all_locks_indexed lm \<Longrightarrow> all_locks_indexed (snd (isLocked_parents now lm parts ex n))"
proof (induction n arbitrary: lm)
  case 0
  then show ?case by simp
next
  case (Suc i)
  obtain ls lm1 where g: "getLocksForPath now lm (CHR ''/'' # join_with (CHR ''/'') (take i parts)) = (ls, lm1)"
    by (cases "getLocksForPath now lm (CHR ''/'' # join_with (CHR ''/'') (take i parts))")
  have a: "all_locks_indexed lm1"
    using getLocksForPath_indexed [OF Suc.prems, of now "CHR ''/'' # join_with (CHR ''/'') (take i parts)"] g
    by simp
  show ?case using g a Suc.IH [OF a] by simp
qed

lemma isLocked_indexed:
  assumes "all_locks_indexed lm"
  shows "all_locks_indexed (snd (isLocked now lm p ex))"
proof -
  obtain ls lm1 where g: "getLocksForPath now lm (lm_normalizePath p) = (ls, lm1)"
    by (cases "getLocksForPath now lm (lm_normalizePath p)")
  have a: "all_locks_indexed lm1"
    using getLocksForPath_indexed [OF assms, of now "lm_normalizePath p"] g by simp
  show ?thesis using g a by (simp add: isLocked_def isLocked_parents_indexed)
qed

lemma hasValidLockToken_indexed:
  assumes "all_locks_indexed lm"
  shows "all_locks_indexed (snd (hasValidLockToken now lm p tok))"
proof -
  obtain r lm1 where g: "getLock now lm tok = (r, lm1)" by (cases "getLock now lm tok")
  have a: "all_locks_indexed lm1" using getLock_indexed [OF assms, of now tok] g by simp
  show ?thesis using g a by (cases r) (simp_all add: hasValidLockToken_def)
qed

lemma token_refused_indexed:
  assumes "all_locks_indexed (snd blm)"
  shows "all_locks_indexed (snd (token_refused now blm p t))"
proof -
  obtain b lm1 where blm: "blm = (b, lm1)" by (cases blm)
  then have a: "all_locks_indexed lm1" using assms by simp
  show ?thesis
  proof (cases t)
    case None
    then show ?thesis using blm a by (simp add: token_refused_def)
  next
    case (Some tok)
    obtain v lm2 where h: "hasValidLockToken now lm1 p tok = (v, lm2)"
      by (cases "hasValidLockToken now lm1 p tok")
    have "all_locks_indexed lm2" using hasValidLockToken_indexed [OF a, of now p tok] h by simp
    then show ?thesis using blm a Some h by (simp add: token_refused_def)
  qed
qed

subsection \<open>removeLocksForPath\<close>

lemma map_of_fold_delete:
  "map_of (fold AList.delete ks al) k = (if k \<in> set ks then None else map_of al k)"
  by (induction ks arbitrary: al) (auto simp: delete_conv')

lemma removeLocksForPath_pathLocks:
  "map_of (pathLocks (removeLocksForPath lm p)) (lm_normalizePath p) = None"
  by (simp add: removeLocksForPath_def delete_conv' split: option.splits)

lemma removeLocksForPath_no_lock_left:
  assumes idx: "all_locks_indexed lm"
    and l: "map_of (locks (removeLocksForPath lm p)) tok = Some l"
  shows "lock_path l \<noteq> lm_normalizePath p"
proof
  assume eq: "lock_path l = lm_normalizePath p"
  show False
  proof (cases "map_of (pathLocks lm) (lm_normalizePath p)")
    case None
    then have "map_of (locks lm) tok = Some l" using l by (simp add: removeLocksForPath_def)
    then have "(tok, l) \<in> set (locks lm)" by (rule map_of_SomeD)
    from all_locks_indexedD [OF idx this] show False using None eq by simp
  next
    case (Some pls)
    then have "map_of (fold AList.delete pls (locks lm)) tok = Some l"
      using l by (simp add: removeLocksForPath_def)
    then have nin: "tok \<notin> set pls" and m: "map_of (locks lm) tok = Some l"
      by (auto simp: map_of_fold_delete split: if_splits)
    from m have "(tok, l) \<in> set (locks lm)" by (rule map_of_SomeD)
    from all_locks_indexedD [OF idx this] show False using Some eq nin by simp
  qed
qed

subsection \<open>DELETE and PUT\<close>


lemma handleDelete_204:
  assumes np: "normalizePath (req_path req) = Some p"
    and run: "handleDelete fsys now req s = (res, s')"
    and ok: "res_status res = 204"
  shows "lockManager s' =
           removeLocksForPath
             (snd (token_refused now (isLocked now (lockManager s) p None) p (extractLockToken req))) p"
proof -
  obtain refused lm1 where tr:
    "token_refused now (isLocked now (lockManager s) p None) p (extractLockToken req) = (refused, lm1)"
    by (cases "token_refused now (isLocked now (lockManager s) p None) p (extractLockToken req)")
  obtain e fs1 where del: "vfs_delete fsys (filesystem s) p = (e, fs1)"
    by (cases "vfs_delete fsys (filesystem s) p")
  show ?thesis
    using run ok np tr del
    by (cases e) (auto simp: handleDelete_def respond_def uncaught_def split: if_splits)
qed

text \<open>
  C1 (amended). After a \<^verbatim>\<open>DELETE\<close> of \<open>p\<close> that answers 204, the path index
  has no entry for \<open>p\<close>, and when every lock of the token index was listed under its own
  path before the request, no lock whose path equals \<open>p\<close> remains. (Paths are compared in
  the lock manager's own normal form. Locks on descendants of \<open>p\<close> are not touched.)
\<close>

theorem handleDelete_purges_locks_of_path:
  assumes np: "normalizePath (req_path req) = Some p"
    and run: "handleDelete fsys now req s = (res, s')"
    and ok: "res_status res = 204"
  shows "map_of (pathLocks (lockManager s')) (lm_normalizePath p) = None \<and>
         (all_locks_indexed (lockManager s) \<longrightarrow>
            (\<forall>tok l. map_of (locks (lockManager s')) tok = Some l \<longrightarrow>
                      lock_path l \<noteq> lm_normalizePath p))"
proof -
  let ?lm1 = "snd (token_refused now (isLocked now (lockManager s) p None) p (extractLockToken req))"
  have lm': "lockManager s' = removeLocksForPath ?lm1 p"
    using handleDelete_204 [OF np run ok] .
  have a: "map_of (pathLocks (lockManager s')) (lm_normalizePath p) = None"
    unfolding lm' by (rule removeLocksForPath_pathLocks)
  have b: "all_locks_indexed (lockManager s) \<Longrightarrow>
           map_of (locks (lockManager s')) tok = Some l \<Longrightarrow> lock_path l \<noteq> lm_normalizePath p" for tok l
  proof -
    assume idx: "all_locks_indexed (lockManager s)" and l: "map_of (locks (lockManager s')) tok = Some l"
    have "all_locks_indexed (snd (isLocked now (lockManager s) p None))"
      using idx by (rule isLocked_indexed)
    then have "all_locks_indexed ?lm1" by (rule token_refused_indexed)
    then show ?thesis using l unfolding lm' by (rule removeLocksForPath_no_lock_left)
  qed
  show ?thesis using a b by blast
qed


subsection \<open>MKCOL\<close>


lemma volume_stamp_created [simp]: "volume (stamp_created u now fs p) = volume fs"
  by (simp add: stamp_created_def generateEtag_def setPropertyInternal_def)


subsection \<open>Range headers\<close>


lemma digit_char:
  assumes "d < 10"
  shows "is_digit (''0123456789'' ! d) \<and> (of_char (''0123456789'' ! d) :: nat) = 48 + d"
proof -
  from assms have "d \<in> {0, 1, 2, 3, 4, 5, 6, 7, 8, 9}" by auto
  then show ?thesis by (auto simp: is_digit_def)
qed

lemma show_nat_digits: "c \<in> set (show_nat n) \<Longrightarrow> is_digit c"
proof (induction n rule: show_nat.induct)
  case (1 n)
  show ?case
  proof (cases "n < 10")
    case True
    then show ?thesis using "1.prems" digit_char [of n] by (simp add: show_nat.simps [of n])
  next
    case False
    then show ?thesis using "1.prems" "1.IH" digit_char [of "n mod 10"]
      by (auto simp: show_nat.simps [of n])
  qed
qed

lemma show_nat_nonempty: "show_nat n \<noteq> []"
  by (simp add: show_nat.simps [of n])

lemma digits_value_snoc:
  "digits_value (ds @ [c]) = 10 * digits_value ds + ((of_char c :: nat) - 48)"
  by (simp add: digits_value_def)

lemma digits_value_show_nat: "digits_value (show_nat n) = n"
proof (induction n rule: show_nat.induct)
  case (1 n)
  show ?case
  proof (cases "n < 10")
    case True
    then show ?thesis using digit_char [of n]
      by (simp add: show_nat.simps [of n] digits_value_def)
  next
    case False
    then show ?thesis using "1.IH" digit_char [of "n mod 10"]
      by (simp add: show_nat.simps [of n] digits_value_snoc)
  qed
qed

lemma is_digit_not_other:
  "is_digit c \<Longrightarrow> \<not> is_space c \<and> c \<noteq> CHR ''-'' \<and> c \<noteq> CHR ''+'' \<and> c \<noteq> CHR 0x0A \<and> c \<noteq> CHR 0x0D"
  by (auto simp: is_digit_def is_space_def)

lemma takeWhile_all: "\<forall>x\<in>set xs. P x \<Longrightarrow> takeWhile P xs = xs"
  by (induction xs) auto

lemma js_parseInt_show_nat: "js_parseInt (show_nat n) = Some (int n)"
proof -
  obtain c cs where sn: "show_nat n = c # cs"
    using show_nat_nonempty [of n] by (cases "show_nat n") auto
  have dig: "\<forall>x\<in>set (c # cs). is_digit x" using show_nat_digits [of _ n] sn by auto
  then have c: "\<not> is_space c" "c \<noteq> CHR ''-''" "c \<noteq> CHR ''+''"
    using is_digit_not_other [of c] by auto
  have tw: "takeWhile is_digit (c # cs) = c # cs" using dig by (rule takeWhile_all)
  have "js_parseInt (c # cs) = Some (int (digits_value (c # cs)))"
    using c tw unfolding js_parseInt_def Let_def by simp
  then show ?thesis using sn digits_value_show_nat [of n] by simp
qed

lemma takeWhile_until: "\<forall>x\<in>set xs. x \<noteq> c \<Longrightarrow> takeWhile (\<lambda>x. x \<noteq> c) (xs @ c # ys) = xs"
  by (induction xs) auto

lemma dropWhile_until: "\<forall>x\<in>set xs. x \<noteq> c \<Longrightarrow> dropWhile (\<lambda>x. x \<noteq> c) (xs @ c # ys) = c # ys"
  by (induction xs) auto

lemma show_nat_plain:
  "\<forall>x\<in>set (show_nat n). x \<noteq> CHR ''-'' \<and> x \<noteq> CHR 0x0A \<and> x \<noteq> CHR 0x0D"
  using show_nat_digits is_digit_not_other by blast

lemma parseRangeHeader_closed:
  "parseRangeHeader (''bytes='' @ show_nat a @ ''-'' @ show_nat b) fileSize =
     (if b < a \<or> fileSize \<le> int a then None else Some (int a, min (int b) (fileSize - 1)))"
proof -
  let ?spec = "show_nat a @ CHR ''-'' # show_nat b"
  have pa: "\<forall>x\<in>set (show_nat a). x \<noteq> CHR ''-''" using show_nat_plain by blast
  have s: "takeWhile (\<lambda>c. c \<noteq> CHR ''-'') ?spec = show_nat a"
    using pa by (rule takeWhile_until)
  have e: "tl (dropWhile (\<lambda>c. c \<noteq> CHR ''-'') ?spec) = show_nat b"
    using dropWhile_until [OF pa, of "show_nat b"] by simp
  have nl: "CHR 0x0A \<notin> set ?spec" "CHR 0x0D \<notin> set ?spec"
    using show_nat_plain [of a] show_nat_plain [of b] by auto
  have "parseRangeHeader (''bytes='' @ ?spec) fileSize =
     (if b < a \<or> fileSize \<le> int a then None else Some (int a, min (int b) (fileSize - 1)))"
    unfolding parseRangeHeader_def Let_def
    using s e nl show_nat_nonempty [of a] show_nat_nonempty [of b]
    by (simp add: js_parseInt_show_nat)
  then show ?thesis by simp
qed

lemma parseRangeHeader_open:
  "parseRangeHeader (''bytes='' @ show_nat a @ ''-'') fileSize =
     (if fileSize \<le> int a then None else Some (int a, fileSize - 1))"
proof -
  let ?spec = "show_nat a @ CHR ''-'' # []"
  have pa: "\<forall>x\<in>set (show_nat a). x \<noteq> CHR ''-''" using show_nat_plain by blast
  have s: "takeWhile (\<lambda>c. c \<noteq> CHR ''-'') ?spec = show_nat a"
    using pa by (rule takeWhile_until)
  have e: "tl (dropWhile (\<lambda>c. c \<noteq> CHR ''-'') ?spec) = []"
    using dropWhile_until [OF pa, of "[]"] by simp
  have nl: "CHR 0x0A \<notin> set ?spec" "CHR 0x0D \<notin> set ?spec"
    using show_nat_plain [of a] by auto
  have "parseRangeHeader (''bytes='' @ ?spec) fileSize =
     (if fileSize \<le> int a then None else Some (int a, fileSize - 1))"
    unfolding parseRangeHeader_def Let_def
    using s e nl show_nat_nonempty [of a]
    by (simp add: js_parseInt_show_nat)
  then show ?thesis by simp
qed

lemma parseRangeHeader_no_prefix:
  "\<not> startsWith h ''bytes='' \<Longrightarrow> parseRangeHeader h fileSize = None"
  by (simp add: parseRangeHeader_def)

lemma parseRangeHeader_no_hyphen:
  "CHR ''-'' \<notin> set (drop 6 h) \<Longrightarrow> parseRangeHeader h fileSize = None"
  by (simp add: parseRangeHeader_def Let_def)

lemma parseRangeHeader_nan_start:
  assumes "takeWhile (\<lambda>x. x \<noteq> CHR ''-'') (drop 6 h) \<noteq> []"
    and "js_parseInt (takeWhile (\<lambda>x. x \<noteq> CHR ''-'') (drop 6 h)) = None"
  shows "parseRangeHeader h fileSize = None"
  using assms by (simp add: parseRangeHeader_def Let_def)

lemma parseRangeHeader_nan_end:
  assumes "tl (dropWhile (\<lambda>x. x \<noteq> CHR ''-'') (drop 6 h)) \<noteq> []"
    and "js_parseInt (tl (dropWhile (\<lambda>x. x \<noteq> CHR ''-'') (drop 6 h))) = None"
  shows "parseRangeHeader h fileSize = None"
  using assms by (simp add: parseRangeHeader_def Let_def split: option.splits)

lemma show_int_nat: "show_int (int n) = show_nat n"
  by (simp add: show_int_def)

lemma acquireStreamLock_read:
  assumes "hasStreamingConflict lm p ReadStream = False"
  shows "fst (acquireStreamLock lm p ReadStream None) = True"
proof (cases "map_of (activeStreams lm) (lm_normalizePath p)")
  case None
  then show ?thesis by (simp add: acquireStreamLock_def)
next
  case (Some st)
  then show ?thesis using assms
    by (cases "stream_type st") (simp_all add: acquireStreamLock_def hasStreamingConflict_def)
qed

lemma handleGet_file:
  assumes np: "normalizePath (req_path req) = Some p"
    and ex: "vfs_exists fsys (filesystem s) p"
    and ty: "vfs_getType fsys (filesystem s) p \<noteq> Some CollectionT"
    and nolock: "fst (hasWebDAVLock now (lockManager s) p (Some Exclusive)) = False"
    and nowrite: "hasStreamingConflict (lockManager s) p ReadStream = False"
  shows "\<exists>lm2. handleGet fsys now req s = sendFile fsys req s lm2 p"
proof -
  obtain b lm1 where hw: "hasWebDAVLock now (lockManager s) p (Some Exclusive) = (b, lm1)"
    by (cases "hasWebDAVLock now (lockManager s) p (Some Exclusive)")
  have b: "b = False" using nolock hw by simp
  have as1: "activeStreams lm1 = activeStreams (lockManager s)"
    using hasWebDAVLock_activeStreams [of now "lockManager s" p "Some Exclusive"] hw by simp
  have nc: "hasStreamingConflict lm1 p ReadStream = False"
    using nowrite as1 by (simp add: hasStreamingConflict_def)
  have "fst (acquireStreamLock lm1 p ReadStream None) = True"
    using nc by (rule acquireStreamLock_read)
  then obtain lm2 where acq: "acquireStreamLock lm1 p ReadStream None = (True, lm2)"
    by (cases "acquireStreamLock lm1 p ReadStream None") auto
  have "handleGet fsys now req s = sendFile fsys req s lm2 p"
    using np ex ty hw b nc acq by (simp add: handleGet_def)
  then show ?thesis by blast
qed

lemma sendFile_memory_fs:
  assumes isfile: "node_at (volume (filesystem s)) (fs_steps p) = Some (FileNode c)"
    and hdr: "hdr_range req = Some h" and present: "h \<noteq> []"
  shows "fst (sendFile (memory_vfs uuidv4) req s lm2 p) =
     (case parseRangeHeader h (int (length c)) of
        None \<Rightarrow> respond 416 [(''Content-Range'', ''bytes */'' @ show_nat (length c)),
                              (''Accept-Ranges'', ''bytes'')] []
      | Some (start, end) \<Rightarrow>
          respond 206
            [(''Content-Range'',
              ''bytes '' @ show_int start @ ''-'' @ show_int end @ ''/'' @ show_nat (length c)),
             (''Content-Length'', show_int (end - start + 1)),
             (''Accept-Ranges'', ''bytes''),
             (''ETag'', mfs_getEtag uuidv4 (filesystem s) p)]
            (take (nat (end - start + 1)) (drop (nat start) c)))"
proof -
  have hv: "header_value (hdr_range req) = Some h" using hdr present by (simp add: header_value_def)
  show ?thesis
    using isfile hv
    by (simp add: sendFile_def memory_vfs_def mfs_getSize_def mfs_getStream_def show_int_nat
        split: option.splits prod.splits)
qed

subsection \<open>The handlers at concrete requests\<close>

text \<open>
  C1 (counterexample). \<^verbatim>\<open>MKCOL /a\<close>, \<^verbatim>\<open>PUT /a/b\<close>, \<^verbatim>\<open>LOCK /a/b\<close> with depth 0
  (token \<^verbatim>\<open>T1\<close>), then \<^verbatim>\<open>DELETE /a\<close> without a token: \<^verbatim>\<open>/a\<close> itself is not locked, the
  answer is 204, \<^verbatim>\<open>/a/b\<close> is gone from the filesystem, and the lock \<^verbatim>\<open>T1\<close> with path
  \<^verbatim>\<open>/a/b\<close>, a descendant of the deleted path, is still in the lock manager.
\<close>

theorem handleDelete_keeps_descendant_lock_counterexample:
  "res_status (fst (handleDelete (memory_vfs example_uuidv4) 5 (request_for ''/a'')
                      server_with_locked_file)) = 204 \<and>
   map_option lock_path
     (map_of (locks (lockManager (snd (handleDelete (memory_vfs example_uuidv4) 5 (request_for ''/a'')
                                         server_with_locked_file)))) ''T1'') = Some ''/a/b'' \<and>
   existsSync (filesystem (snd (handleDelete (memory_vfs example_uuidv4) 5 (request_for ''/a'')
                                  server_with_locked_file))) ''/a/b'' = False"
  by code_simp

text \<open>
  C4 (the code at the failing input). \<^verbatim>\<open>/a/b\<close> exists and holds the exclusive lock
  \<^verbatim>\<open>T1\<close>, so \<^verbatim>\<open>canLock\<close> is false for a second exclusive lock. A \<^verbatim>\<open>LOCK /a/b\<close> with a
  well-formed body is answered with status 500 and the message of the error that
  \<^verbatim>\<open>createLock\<close> throws, not with 423.
\<close>

theorem handleLock_conflict_answers_500:
  "vfs_exists (memory_vfs example_uuidv4) (filesystem server_with_locked_file) ''/a/b'' = True \<and>
   fst (canLock 4 (lockManager server_with_locked_file) ''/a/b'' Exclusive) = False \<and>
   fst (handleLock (memory_vfs example_uuidv4) example_codec 4 ''T2''
          ((request_for ''/a/b'')\<lparr>req_body := ''<lockinfo/>''\<rparr>) server_with_locked_file)
     = \<lparr>res_status = 500, res_headers = [], res_body = ''Resource is already locked''\<rparr>"
  by code_simp


text \<open>
  C6 (counterexample). \<^verbatim>\<open>Range: bytes=0-1x\<close> is not a byte range, yet on the five-byte
  file \<^verbatim>\<open>/a/b\<close> the answer is 206 with the first two bytes: \<^verbatim>\<open>parseInt\<close> reads
  \<^verbatim>\<open>1x\<close> as 1.
\<close>

theorem handleGet_trailing_garbage_counterexample:
  "mfs_getStream (filesystem server_with_file) ''/a/b'' None = Inr ''hello'' \<and>
   res_status (fst (handleGet (memory_vfs example_uuidv4) 5
                      ((request_for ''/a/b'')\<lparr>hdr_range := Some ''bytes=0-1x''\<rparr>)
                      server_with_file)) = 206 \<and>
   res_body (fst (handleGet (memory_vfs example_uuidv4) 5
                      ((request_for ''/a/b'')\<lparr>hdr_range := Some ''bytes=0-1x''\<rparr>)
                      server_with_file)) = ''he''"
  by code_simp

lemma mfs_collection_members:
  assumes "mfs_getType fs p = Some CollectionT"
  shows "existsSync fs p \<and>
         mfs_getMembers fs p = Inr (map (posix_join p) (readdirSync (volume fs) (fs_steps p)))"
proof (cases "node_at (volume fs) (fs_steps p)")
  case None
  then show ?thesis using assms by (simp add: mfs_getType_def)
next
  case (Some n)
  then show ?thesis using assms
    by (cases n) (simp_all add: mfs_getType_def existsSync_def mfs_getMembers_def)
qed

lemma join_with_snoc:
  "xs \<noteq> [] \<Longrightarrow> join_with sep (xs @ [y]) = join_with sep xs @ sep # y"
  by (induction sep xs rule: join_with.induct) auto

lemma posix_normalize_canonical:
  assumes ne: "xs \<noteq> []" and clean: "\<forall>s\<in>set xs. clean_segment s"
  shows "posix_normalize (CHR ''/'' # join_with (CHR ''/'') xs) = CHR ''/'' # join_with (CHR ''/'') xs"
    and "fs_steps (CHR ''/'' # join_with (CHR ''/'') xs) = xs"
proof -
  let ?q = "join_with (CHR ''/'') xs"
  have "split_on (CHR ''/'') (join_with (CHR ''/'') ([] # xs)) = [] # xs"
    using clean by (intro split_join_with) (auto simp: clean_segment_def)
  then have sp: "split_on (CHR ''/'') (CHR ''/'' # ?q) = [] # xs"
    using ne by (simp add: join_with_Nil_Cons)
  have segs: "normalizeString_segs False [] ([] # xs) = xs"
    using clean by (simp add: normalizeString_segs_id)
  show st: "fs_steps (CHR ''/'' # ?q) = xs"
    by (simp only: fs_steps_def sp segs)
  have qne: "?q \<noteq> []"
    using ne clean by (intro join_with_nonempty) (auto simp: clean_segment_def)
  have "last ?q = last (last xs)"
    using ne clean by (intro last_join_with) (auto simp: clean_segment_def)
  moreover have "last xs \<in> set xs" using ne by simp
  then have "clean_segment (last xs)" using clean by blast
  then have "last (last xs) \<noteq> CHR ''/''"
    by (metis clean_segment_def last_in_set)
  ultimately have lastq: "last ?q \<noteq> CHR ''/''" by simp
  have ns: "normalizeString (CHR ''/'' # ?q) False = ?q"
    by (simp only: normalizeString_def sp segs)
  show "posix_normalize (CHR ''/'' # ?q) = CHR ''/'' # ?q"
    using qne lastq ns by (simp add: posix_normalize_def)
qed

lemma posix_join_member:
  assumes H: "p = CHR ''/'' # join_with (CHR ''/'') (fs_steps p)" and n: "clean_segment n"
  shows "posix_join p n = (if p = ''/'' then CHR ''/'' # n else p @ CHR ''/'' # n) \<and>
         fs_steps (posix_join p n) = fs_steps p @ [n]"
proof -
  let ?S = "fs_steps p"
  have clean: "\<forall>s\<in>set ?S. clean_segment s"
    using canonical_segs_clean [of _ p] by (simp add: fs_steps_def canonical_segs_def)
  show ?thesis
  proof (cases "?S = []")
    case True
    then have p: "p = ''/''" using H by simp
    have nn: "n \<noteq> []" "CHR ''/'' \<notin> set n" "n \<noteq> ''.''" "n \<noteq> ''..''"
      using n by (auto simp: clean_segment_def)
    have sp: "split_on (CHR ''/'') (CHR ''/'' # CHR ''/'' # n) = [[], [], n]"
      using nn by (simp add: split_on_no_sep)
    have ns: "normalizeString (CHR ''/'' # CHR ''/'' # n) False = n"
      using nn by (simp only: normalizeString_def sp) simp
    have "last n \<noteq> CHR ''/''" using nn by (metis last_in_set)
    then have "posix_normalize (CHR ''/'' # CHR ''/'' # n) = CHR ''/'' # n"
      using nn ns by (simp add: posix_normalize_def)
    then have a: "posix_join p n = CHR ''/'' # n" by (simp add: posix_join_def p)
    have "fs_steps (CHR ''/'' # join_with (CHR ''/'') [n]) = [n]"
      using n by (intro posix_normalize_canonical(2)) simp_all
    then have "fs_steps (posix_join p n) = ?S @ [n]" using a True by simp
    then show ?thesis using a p by simp
  next
    case False
    have all: "\<forall>s\<in>set (?S @ [n]). clean_segment s" using clean n by simp
    have "p @ CHR ''/'' # n = CHR ''/'' # join_with (CHR ''/'') ?S @ CHR ''/'' # n"
      using H by (metis append_Cons)
    also have "\<dots> = CHR ''/'' # join_with (CHR ''/'') (?S @ [n])"
      using False by (simp add: join_with_snoc)
    finally have e: "p @ CHR ''/'' # n = CHR ''/'' # join_with (CHR ''/'') (?S @ [n])" .
    have a: "posix_join p n = p @ CHR ''/'' # n"
      unfolding posix_join_def e using all by (intro posix_normalize_canonical(1)) simp_all
    have b: "fs_steps (posix_join p n) = ?S @ [n]"
      unfolding a e using all by (intro posix_normalize_canonical(2)) simp_all
    have "join_with (CHR ''/'') ?S \<noteq> []"
      using False clean by (intro join_with_nonempty) (auto simp: clean_segment_def)
    then have "p \<noteq> ''/''" using H by (metis list.inject)
    then show ?thesis using a b by simp
  qed
qed

lemma tl_split_on_Nil: "(tl (split_on sep s) = []) = (sep \<notin> set s)"
proof (induction s)
  case Nil
  then show ?case by simp
next
  case (Cons c cs)
  then show ?case by (cases "split_on sep cs") auto
qed

lemma last_split_on:
  "last (split_on sep s) = rev (takeWhile (\<lambda>c. c \<noteq> sep) (rev s))"
proof (induction s)
  case Nil
  then show ?case by simp
next
  case (Cons c cs)
  show ?case
  proof (cases "c = sep")
    case True
    then show ?thesis using Cons by (simp add: takeWhile_append)
  next
    case False
    show ?thesis
    proof (cases "sep \<in> set cs")
      case True
      then have "tl (split_on sep cs) \<noteq> []" by (simp add: tl_split_on_Nil)
      moreover have "last (split_on sep cs) = last (tl (split_on sep cs))"
        using calculation by (cases "split_on sep cs") auto
      ultimately show ?thesis using Cons False True by (auto simp: takeWhile_append)
    next
      case nosep: False
      then have "split_on sep cs = [cs]" by (rule split_on_no_sep)
      then show ?thesis using False nosep by (simp add: takeWhile_append takeWhile_all)
    qed
  qed
qed

lemma join_with_rows:
  "join_with sep (map f xs) = tl (concat (map (\<lambda>x. sep # f x) xs))"
proof (induction xs rule: induct_list012)
  case (3 x y zs)
  then show ?case by simp
qed simp_all

lemma readdirSync_set:
  "set (readdirSync vol steps) = {n. map_of vol (steps @ [n]) \<noteq> None}"
proof -
  have "\<And>n. (n \<in> set (readdirSync vol steps)) = (map_of vol (steps @ [n]) \<noteq> None)"
  proof
    fix n
    assume "n \<in> set (readdirSync vol steps)"
    then obtain k v where kv: "(k, v) \<in> set vol" "k \<noteq> []" "butlast k = steps" "last k = n"
      by (auto simp: readdirSync_def)
    then have "k = steps @ [n]" by (metis append_butlast_last_id)
    then show "map_of vol (steps @ [n]) \<noteq> None"
      using kv(1) by (metis map_of_eq_None_iff image_eqI fst_conv)
  next
    fix n
    assume "map_of vol (steps @ [n]) \<noteq> None"
    then obtain v where "map_of vol (steps @ [n]) = Some v" by auto
    then have "(steps @ [n], v) \<in> set vol" by (rule map_of_SomeD)
    then show "n \<in> set (readdirSync vol steps)"
      by (force simp: readdirSync_def)
  qed
  then show ?thesis by auto
qed

lemma readdirSync_sorted: "sorted (readdirSync vol steps)"
  by (simp add: readdirSync_def)

lemma readdirSync_distinct:
  assumes "distinct (map fst vol)"
  shows "distinct (readdirSync vol steps)"
proof -
  have "inj_on (\<lambda>(k, n). last k) (set (filter (\<lambda>(k, n). k \<noteq> [] \<and> butlast k = steps) vol))"
  proof (rule inj_onI)
    fix x y
    assume x: "x \<in> set (filter (\<lambda>(k, n). k \<noteq> [] \<and> butlast k = steps) vol)"
      and y: "y \<in> set (filter (\<lambda>(k, n). k \<noteq> [] \<and> butlast k = steps) vol)"
      and e: "(case x of (k, n) \<Rightarrow> last k) = (case y of (k, n) \<Rightarrow> last k)"
    obtain k v where xk: "x = (k, v)" by (cases x)
    obtain k' v' where yk: "y = (k', v')" by (cases y)
    from x xk have a: "(k, v) \<in> set vol" "k \<noteq> []" "butlast k = steps" by auto
    from y yk have b: "(k', v') \<in> set vol" "k' \<noteq> []" "butlast k' = steps" by auto
    from e xk yk have "last k = last k'" by simp
    with a b have "k = k'" by (metis append_butlast_last_id)
    with a(1) b(1) assms have "v = v'" by (metis eq_key_imp_eq_value)
    with \<open>k = k'\<close> xk yk show "x = y" by simp
  qed
  moreover have "distinct (filter (\<lambda>(k, n). k \<noteq> [] \<and> butlast k = steps) vol)"
    using assms by (simp add: distinct_map)
  ultimately show ?thesis by (simp add: readdirSync_def distinct_map)
qed

lemma generateDirectoryListing_page:
  "generateDirectoryListing p members =
         concat (map ((#) (CHR 0x0A))
           [''<!DOCTYPE html>'',
            ''<html>'',
            ''<head>'',
            ''    <title>Directory listing for '' @ p @ ''</title>'',
            ''    <style>'',
            ''        body { font-family: Arial, sans-serif; margin: 40px; }'',
            ''        table { border-collapse: collapse; width: 100%; }'',
            ''        th, td { text-align: left; padding: 8px; border-bottom: 1px solid #ddd; }'',
            ''        a { text-decoration: none; color: #0066cc; }'',
            ''        a:hover { text-decoration: underline; }'',
            ''    </style>'',
            ''</head>'',
            ''<body>'',
            ''    <h1>Directory listing for '' @ p @ ''</h1>'',
            ''    <table>'',
            ''        <thead>'',
            ''            <tr><th>Name</th></tr>'',
            ''        </thead>'',
            ''        <tbody>'']) @
         CHR 0x0A # ''            '' @
         tl (concat (map (\<lambda>member.
               CHR 0x0A # ''<tr><td><a href='' @ [CHR 0x22] @ member @ [CHR 0x22] @ ''>'' @
               (if rev (takeWhile (\<lambda>c. c \<noteq> CHR ''/'') (rev member)) = [] then member
                else rev (takeWhile (\<lambda>c. c \<noteq> CHR ''/'') (rev member))) @
               ''</a></td></tr>'') members)) @
         concat (map ((#) (CHR 0x0A))
           [''        </tbody>'', ''    </table>'', ''</body>'', ''</html>''])"
proof -
  have rows: "join_with (CHR 0x0A) (map listing_row members) =
      tl (concat (map (\<lambda>member.
               CHR 0x0A # ''<tr><td><a href='' @ [CHR 0x22] @ member @ [CHR 0x22] @ ''>'' @
               (if rev (takeWhile (\<lambda>c. c \<noteq> CHR ''/'') (rev member)) = [] then member
                else rev (takeWhile (\<lambda>c. c \<noteq> CHR ''/'') (rev member))) @
               ''</a></td></tr>'') members))"
    unfolding join_with_rows by (simp add: listing_row_def last_split_on dquote_def cong: if_cong)
  show ?thesis
    unfolding generateDirectoryListing_def rows by simp
qed

text \<open>
  C10. For a collection \<open>p\<close>, \<^verbatim>\<open>GET\<close> answers 200 with the HTML listing of its
  members and returns the server state as it was: whatever the lock manager holds, no
  lock is consulted, none is removed and no stream lock is acquired. The body is the
  page \<open>page members\<close>, written out character by character: the fixed lines of the
  template with \<open>p\<close> in the title and the heading, and in the table body one row per
  member, in the order of \<open>members\<close> and separated by a line feed, whose link points to
  the member and shows what follows the member's last slash (the member itself when
  nothing follows it). First for every filesystem behind the interface that reports
  \<open>p\<close> as an existing collection with the members \<open>members\<close>; then for
  \<^verbatim>\<open>MemoryFileSystem\<close>, where the members are \<open>p\<close> joined with the names of the entries
  right below \<open>p\<close>: the names are sorted, they are exactly the names \<open>n\<close> for which the
  volume has an entry at the steps of \<open>p\<close> followed by \<open>n\<close>, and no name is listed twice
  when the volume holds each path once. Joining a path \<open>p\<close> that is written as its own
  steps with a name \<open>n\<close> that is a plain segment gives \<open>p\<close>, a slash unless \<open>p\<close> is the
  root, and \<open>n\<close>, and this member's steps are those of \<open>p\<close> followed by \<open>n\<close>: the link
  of a row is the path of the entry it lists.
\<close>

theorem handleGet_collection_listing:
  assumes np: "normalizePath (req_path req) = Some p"
    and page: "page = (\<lambda>members.
         concat (map ((#) (CHR 0x0A))
           [''<!DOCTYPE html>'',
            ''<html>'',
            ''<head>'',
            ''    <title>Directory listing for '' @ p @ ''</title>'',
            ''    <style>'',
            ''        body { font-family: Arial, sans-serif; margin: 40px; }'',
            ''        table { border-collapse: collapse; width: 100%; }'',
            ''        th, td { text-align: left; padding: 8px; border-bottom: 1px solid #ddd; }'',
            ''        a { text-decoration: none; color: #0066cc; }'',
            ''        a:hover { text-decoration: underline; }'',
            ''    </style>'',
            ''</head>'',
            ''<body>'',
            ''    <h1>Directory listing for '' @ p @ ''</h1>'',
            ''    <table>'',
            ''        <thead>'',
            ''            <tr><th>Name</th></tr>'',
            ''        </thead>'',
            ''        <tbody>'']) @
         CHR 0x0A # ''            '' @
         tl (concat (map (\<lambda>member.
               CHR 0x0A # ''<tr><td><a href='' @ [CHR 0x22] @ member @ [CHR 0x22] @ ''>'' @
               (if rev (takeWhile (\<lambda>c. c \<noteq> CHR ''/'') (rev member)) = [] then member
                else rev (takeWhile (\<lambda>c. c \<noteq> CHR ''/'') (rev member))) @
               ''</a></td></tr>'') members)) @
         concat (map ((#) (CHR 0x0A))
           [''        </tbody>'', ''    </table>'', ''</body>'', ''</html>'']))"
  shows "(vfs_exists fsys (filesystem s) p \<and>
          vfs_getType fsys (filesystem s) p = Some CollectionT \<and>
          vfs_getMembers fsys (filesystem s) p = Inr members \<longrightarrow>
            handleGet fsys now req s =
              (\<lparr>res_status = 200, res_headers = [(''Content-Type'', ''text/html'')],
                res_body = page members\<rparr>, s)) \<and>
         (mfs_getType (filesystem m) p = Some CollectionT \<longrightarrow>
            handleGet (memory_vfs gen) now req m =
              (\<lparr>res_status = 200, res_headers = [(''Content-Type'', ''text/html'')],
                res_body = page (map (posix_join p)
                                   (readdirSync (volume (filesystem m)) (fs_steps p)))\<rparr>, m) \<and>
            sorted (readdirSync (volume (filesystem m)) (fs_steps p)) \<and>
            set (readdirSync (volume (filesystem m)) (fs_steps p)) =
              {n. node_at (volume (filesystem m)) (fs_steps p @ [n]) \<noteq> None} \<and>
            (distinct (map fst (volume (filesystem m))) \<longrightarrow>
               distinct (readdirSync (volume (filesystem m)) (fs_steps p)))) \<and>
         (p = CHR ''/'' # join_with (CHR ''/'') (fs_steps p) \<longrightarrow>
            (\<forall>n. clean_segment n \<longrightarrow>
               posix_join p n = (if p = ''/'' then CHR ''/'' # n else p @ CHR ''/'' # n) \<and>
               fs_steps (posix_join p n) = fs_steps p @ [n]))"
proof -
  have pg: "\<And>ms. generateDirectoryListing p ms = page ms"
    unfolding page by (rule generateDirectoryListing_page)
  have g1: "vfs_exists fsys (filesystem s) p \<and>
          vfs_getType fsys (filesystem s) p = Some CollectionT \<and>
          vfs_getMembers fsys (filesystem s) p = Inr members \<longrightarrow>
            handleGet fsys now req s =
              (\<lparr>res_status = 200, res_headers = [(''Content-Type'', ''text/html'')],
                res_body = page members\<rparr>, s)"
    using np by (simp add: handleGet_def respond_def pg)
  have g2: "mfs_getType (filesystem m) p = Some CollectionT \<longrightarrow>
            handleGet (memory_vfs gen) now req m =
              (\<lparr>res_status = 200, res_headers = [(''Content-Type'', ''text/html'')],
                res_body = page (map (posix_join p)
                                   (readdirSync (volume (filesystem m)) (fs_steps p)))\<rparr>, m) \<and>
            sorted (readdirSync (volume (filesystem m)) (fs_steps p)) \<and>
            set (readdirSync (volume (filesystem m)) (fs_steps p)) =
              {n. node_at (volume (filesystem m)) (fs_steps p @ [n]) \<noteq> None} \<and>
            (distinct (map fst (volume (filesystem m))) \<longrightarrow>
               distinct (readdirSync (volume (filesystem m)) (fs_steps p)))"
  proof (intro impI conjI)
    assume ty: "mfs_getType (filesystem m) p = Some CollectionT"
    from mfs_collection_members [OF ty]
    show "handleGet (memory_vfs gen) now req m =
              (\<lparr>res_status = 200, res_headers = [(''Content-Type'', ''text/html'')],
                res_body = page (map (posix_join p)
                                   (readdirSync (volume (filesystem m)) (fs_steps p)))\<rparr>, m)"
      using np ty by (simp add: handleGet_def respond_def memory_vfs_def pg)
  next
    show "sorted (readdirSync (volume (filesystem m)) (fs_steps p))"
      by (rule readdirSync_sorted)
  next
    show "set (readdirSync (volume (filesystem m)) (fs_steps p)) =
              {n. node_at (volume (filesystem m)) (fs_steps p @ [n]) \<noteq> None}"
      by (simp add: readdirSync_set node_at_def)
  next
    assume "distinct (map fst (volume (filesystem m)))"
    then show "distinct (readdirSync (volume (filesystem m)) (fs_steps p))"
      by (rule readdirSync_distinct)
  qed
  have g3: "p = CHR ''/'' # join_with (CHR ''/'') (fs_steps p) \<longrightarrow>
            (\<forall>n. clean_segment n \<longrightarrow>
               posix_join p n = (if p = ''/'' then CHR ''/'' # n else p @ CHR ''/'' # n) \<and>
               fs_steps (posix_join p n) = fs_steps p @ [n])"
    using posix_join_member [of p] by blast
  show ?thesis by (intro conjI g1 g2 g3)
qed

text \<open>
  Witness for C10: \<^verbatim>\<open>GET /a\<close> while \<^verbatim>\<open>/a\<close> holds an exclusive depth-infinity lock and
  a write stream is active on it. The collection holds \<^verbatim>\<open>b\<close> and \<^verbatim>\<open>ab\<close>, created in
  this order; the listing has the row of \<^verbatim>\<open>/a/ab\<close> first.
\<close>

theorem handleGet_collection_listing_witness:
  "normalizePath ''/a'' = Some ''/a'' \<and>
   map fst (volume (filesystem server_with_busy_locked_collection)) = [[''a''], [''a'', ''b''], [''a'', ''ab'']] \<and>
   mfs_getType (filesystem server_with_busy_locked_collection) ''/a'' = Some CollectionT \<and>
   mfs_getMembers (filesystem server_with_busy_locked_collection) ''/a'' = Inr [''/a/ab'', ''/a/b''] \<and>
   fst (hasWebDAVLock 5 (lockManager server_with_busy_locked_collection) ''/a'' (Some Exclusive)) = True \<and>
   hasStreamingConflict (lockManager server_with_busy_locked_collection) ''/a'' ReadStream = True \<and>
   readdirSync (volume (filesystem server_with_busy_locked_collection)) (fs_steps ''/a'') = [''ab'', ''b''] \<and>
   sorted (readdirSync (volume (filesystem server_with_busy_locked_collection)) (fs_steps ''/a'')) \<and>
   distinct (readdirSync (volume (filesystem server_with_busy_locked_collection)) (fs_steps ''/a'')) \<and>
   ''/a'' = CHR ''/'' # join_with (CHR ''/'') (fs_steps ''/a'') \<and>
   clean_segment ''ab'' \<and>
   posix_join ''/a'' ''ab'' = ''/a/ab'' \<and>
   fs_steps (posix_join ''/a'' ''ab'') = [''a'', ''ab''] \<and>
   handleGet (memory_vfs example_uuidv4) 5 (request_for ''/a'') server_with_busy_locked_collection =
     (\<lparr>res_status = 200, res_headers = [(''Content-Type'', ''text/html'')],
       res_body =
         concat (map ((#) (CHR 0x0A))
         [''<!DOCTYPE html>'',
          ''<html>'',
          ''<head>'',
          ''    <title>Directory listing for /a</title>'',
          ''    <style>'',
          ''        body { font-family: Arial, sans-serif; margin: 40px; }'',
          ''        table { border-collapse: collapse; width: 100%; }'',
          ''        th, td { text-align: left; padding: 8px; border-bottom: 1px solid #ddd; }'',
          ''        a { text-decoration: none; color: #0066cc; }'',
          ''        a:hover { text-decoration: underline; }'',
          ''    </style>'',
          ''</head>'',
          ''<body>'',
          ''    <h1>Directory listing for /a</h1>'',
          ''    <table>'',
          ''        <thead>'',
          ''            <tr><th>Name</th></tr>'',
          ''        </thead>'',
          ''        <tbody>'',
          ''            <tr><td><a href='' @ [CHR 0x22] @ ''/a/ab'' @ [CHR 0x22] @ ''>ab</a></td></tr>'',
          ''<tr><td><a href='' @ [CHR 0x22] @ ''/a/b'' @ [CHR 0x22] @ ''>b</a></td></tr>'',
          ''        </tbody>'',
          ''    </table>'',
          ''</body>'',
          ''</html>''])\<rparr>,
      server_with_busy_locked_collection)"
proof -
  let ?srv = "server_with_busy_locked_collection"
  let ?page = "\<lambda>members.
         concat (map ((#) (CHR 0x0A))
           [''<!DOCTYPE html>'',
            ''<html>'',
            ''<head>'',
            ''    <title>Directory listing for '' @ ''/a'' @ ''</title>'',
            ''    <style>'',
            ''        body { font-family: Arial, sans-serif; margin: 40px; }'',
            ''        table { border-collapse: collapse; width: 100%; }'',
            ''        th, td { text-align: left; padding: 8px; border-bottom: 1px solid #ddd; }'',
            ''        a { text-decoration: none; color: #0066cc; }'',
            ''        a:hover { text-decoration: underline; }'',
            ''    </style>'',
            ''</head>'',
            ''<body>'',
            ''    <h1>Directory listing for '' @ ''/a'' @ ''</h1>'',
            ''    <table>'',
            ''        <thead>'',
            ''            <tr><th>Name</th></tr>'',
            ''        </thead>'',
            ''        <tbody>'']) @
         CHR 0x0A # ''            '' @
         tl (concat (map (\<lambda>member.
               CHR 0x0A # ''<tr><td><a href='' @ [CHR 0x22] @ member @ [CHR 0x22] @ ''>'' @
               (if rev (takeWhile (\<lambda>c. c \<noteq> CHR ''/'') (rev member)) = [] then member
                else rev (takeWhile (\<lambda>c. c \<noteq> CHR ''/'') (rev member))) @
               ''</a></td></tr>'') members)) @
         concat (map ((#) (CHR 0x0A))
           [''        </tbody>'', ''    </table>'', ''</body>'', ''</html>''])"
  have np: "normalizePath (req_path (request_for ''/a'')) = Some ''/a''" by code_simp
  have np': "normalizePath ''/a'' = Some ''/a''" by code_simp
  have keys: "map fst (volume (filesystem ?srv)) = [[''a''], [''a'', ''b''], [''a'', ''ab'']]"
    by code_simp
  have dist: "distinct (map fst (volume (filesystem ?srv)))" by code_simp
  have ty: "mfs_getType (filesystem ?srv) ''/a'' = Some CollectionT" by code_simp
  have ex: "vfs_exists (memory_vfs example_uuidv4) (filesystem ?srv) ''/a''" by code_simp
  have ty': "vfs_getType (memory_vfs example_uuidv4) (filesystem ?srv) ''/a'' = Some CollectionT"
    by code_simp
  have ms: "mfs_getMembers (filesystem ?srv) ''/a'' = Inr [''/a/ab'', ''/a/b'']" by code_simp
  have ms': "vfs_getMembers (memory_vfs example_uuidv4) (filesystem ?srv) ''/a''
               = Inr [''/a/ab'', ''/a/b'']" by code_simp
  have lk: "fst (hasWebDAVLock 5 (lockManager ?srv) ''/a'' (Some Exclusive)) = True" by code_simp
  have st: "hasStreamingConflict (lockManager ?srv) ''/a'' ReadStream = True" by code_simp
  have names: "readdirSync (volume (filesystem ?srv)) (fs_steps ''/a'') = [''ab'', ''b'']"
    by code_simp
  have body: "?page [''/a/ab'', ''/a/b''] =
         concat (map ((#) (CHR 0x0A))
         [''<!DOCTYPE html>'',
          ''<html>'',
          ''<head>'',
          ''    <title>Directory listing for /a</title>'',
          ''    <style>'',
          ''        body { font-family: Arial, sans-serif; margin: 40px; }'',
          ''        table { border-collapse: collapse; width: 100%; }'',
          ''        th, td { text-align: left; padding: 8px; border-bottom: 1px solid #ddd; }'',
          ''        a { text-decoration: none; color: #0066cc; }'',
          ''        a:hover { text-decoration: underline; }'',
          ''    </style>'',
          ''</head>'',
          ''<body>'',
          ''    <h1>Directory listing for /a</h1>'',
          ''    <table>'',
          ''        <thead>'',
          ''            <tr><th>Name</th></tr>'',
          ''        </thead>'',
          ''        <tbody>'',
          ''            <tr><td><a href='' @ [CHR 0x22] @ ''/a/ab'' @ [CHR 0x22] @ ''>ab</a></td></tr>'',
          ''<tr><td><a href='' @ [CHR 0x22] @ ''/a/b'' @ [CHR 0x22] @ ''>b</a></td></tr>'',
          ''        </tbody>'',
          ''    </table>'',
          ''</body>'',
          ''</html>''])"
    by code_simp
  note both = handleGet_collection_listing [where req = "request_for ''/a''" and p = "''/a''"
      and fsys = "memory_vfs example_uuidv4" and s = ?srv and members = "[''/a/ab'', ''/a/b'']"
      and m = ?srv and gen = example_uuidv4 and now = 5, OF np refl]
  have r1: "handleGet (memory_vfs example_uuidv4) 5 (request_for ''/a'') ?srv =
      (\<lparr>res_status = 200, res_headers = [(''Content-Type'', ''text/html'')],
        res_body = ?page [''/a/ab'', ''/a/b'']\<rparr>, ?srv)"
    by (rule both [THEN conjunct1, THEN mp, OF conjI [OF ex conjI [OF ty' ms']]])
  note mem = both [THEN conjunct2, THEN conjunct1, THEN mp, OF ty]
  have own: "''/a'' = CHR ''/'' # join_with (CHR ''/'') (fs_steps ''/a'')" by code_simp
  have cl: "clean_segment ''ab''" by code_simp
  note link = both [THEN conjunct2, THEN conjunct2, THEN mp, OF own, THEN spec, THEN mp, OF cl]
  have e1: "(if ''/a'' = ''/'' then CHR ''/'' # ''ab'' else ''/a'' @ CHR ''/'' # ''ab'') = ''/a/ab''"
    by code_simp
  have e2: "fs_steps ''/a'' @ [''ab''] = [''a'', ''ab'']" by code_simp
  have j1: "posix_join ''/a'' ''ab'' = ''/a/ab''"
    using link [THEN conjunct1] by (simp only: e1)
  have j2: "fs_steps (posix_join ''/a'' ''ab'') = [''a'', ''ab'']"
    using link [THEN conjunct2] by (simp only: e2)
  have srt: "sorted (readdirSync (volume (filesystem ?srv)) (fs_steps ''/a''))"
    by (rule mem [THEN conjunct2, THEN conjunct1])
  have dst: "distinct (readdirSync (volume (filesystem ?srv)) (fs_steps ''/a''))"
    by (rule mem [THEN conjunct2, THEN conjunct2, THEN conjunct2, THEN mp, OF dist])
  have r: "handleGet (memory_vfs example_uuidv4) 5 (request_for ''/a'') ?srv =
      (\<lparr>res_status = 200, res_headers = [(''Content-Type'', ''text/html'')],
        res_body =
         concat (map ((#) (CHR 0x0A))
         [''<!DOCTYPE html>'',
          ''<html>'',
          ''<head>'',
          ''    <title>Directory listing for /a</title>'',
          ''    <style>'',
          ''        body { font-family: Arial, sans-serif; margin: 40px; }'',
          ''        table { border-collapse: collapse; width: 100%; }'',
          ''        th, td { text-align: left; padding: 8px; border-bottom: 1px solid #ddd; }'',
          ''        a { text-decoration: none; color: #0066cc; }'',
          ''        a:hover { text-decoration: underline; }'',
          ''    </style>'',
          ''</head>'',
          ''<body>'',
          ''    <h1>Directory listing for /a</h1>'',
          ''    <table>'',
          ''        <thead>'',
          ''            <tr><th>Name</th></tr>'',
          ''        </thead>'',
          ''        <tbody>'',
          ''            <tr><td><a href='' @ [CHR 0x22] @ ''/a/ab'' @ [CHR 0x22] @ ''>ab</a></td></tr>'',
          ''<tr><td><a href='' @ [CHR 0x22] @ ''/a/b'' @ [CHR 0x22] @ ''>b</a></td></tr>'',
          ''        </tbody>'',
          ''    </table>'',
          ''</body>'',
          ''</html>''])\<rparr>, ?srv)"
    using r1 by (simp only: body)
  show ?thesis by (intro conjI np' keys ty ms lk st names srt dst own cl j1 j2 r)
qed

text \<open>
  Witness for C1: \<^verbatim>\<open>DELETE /a/b\<close> carrying the token of the lock held on \<^verbatim>\<open>/a/b\<close>.
\<close>

theorem handleDelete_purges_locks_of_path_witness:
  "normalizePath ''/a/b'' = Some ''/a/b'' \<and>
   all_locks_indexed (lockManager server_with_locked_file) \<and>
   map_option lock_path (map_of (locks (lockManager server_with_locked_file)) ''T1'') = Some ''/a/b'' \<and>
   res_status (fst (handleDelete (memory_vfs example_uuidv4) 5
      ((request_for ''/a/b'')\<lparr>hdr_lock_token := Some ''<opaquelocktoken:T1>''\<rparr>)
      server_with_locked_file)) = 204 \<and>
   map_of (pathLocks (lockManager (snd (handleDelete (memory_vfs example_uuidv4) 5
      ((request_for ''/a/b'')\<lparr>hdr_lock_token := Some ''<opaquelocktoken:T1>''\<rparr>)
      server_with_locked_file)))) (lm_normalizePath ''/a/b'') = None \<and>
   \<not> (\<exists>tok l. map_of (locks (lockManager (snd (handleDelete (memory_vfs example_uuidv4) 5
      ((request_for ''/a/b'')\<lparr>hdr_lock_token := Some ''<opaquelocktoken:T1>''\<rparr>)
      server_with_locked_file)))) tok = Some l \<and> lock_path l = lm_normalizePath ''/a/b'')"
proof -
  let ?req = "(request_for ''/a/b'')\<lparr>hdr_lock_token := Some ''<opaquelocktoken:T1>''\<rparr>"
  let ?run = "handleDelete (memory_vfs example_uuidv4) 5 ?req server_with_locked_file"
  have np: "normalizePath (req_path ?req) = Some ''/a/b''" by code_simp
  have np': "normalizePath ''/a/b'' = Some ''/a/b''" by code_simp
  have run: "?run = (fst ?run, snd ?run)" by simp
  have ok: "res_status (fst ?run) = 204" by code_simp
  have idx: "all_locks_indexed (lockManager server_with_locked_file)" by code_simp
  have before: "map_option lock_path (map_of (locks (lockManager server_with_locked_file)) ''T1'') = Some ''/a/b''"
    by code_simp
  from handleDelete_purges_locks_of_path [OF np run ok] idx
  have "map_of (pathLocks (lockManager (snd ?run))) (lm_normalizePath ''/a/b'') = None \<and>
        \<not> (\<exists>tok l. map_of (locks (lockManager (snd ?run))) tok = Some l \<and>
                    lock_path l = lm_normalizePath ''/a/b'')"
    by blast
  then show ?thesis using np' idx before ok by blast
qed


text \<open>
  C6 (amended). \<^verbatim>\<open>GET\<close> of an existing file with content \<open>c\<close> (size \<open>length c\<close>) over
  \<^verbatim>\<open>MemoryFileSystem\<close>, not refused by an exclusive WebDAV lock or a write stream, with a
  non-empty \<^verbatim>\<open>Range\<close> header \<open>h\<close>; \<open>R\<close> is the response.
  \<^verbatim>\<open>bytes=-0\<close> gives 416. \<^verbatim>\<open>bytes=0-0\<close> on a one-byte file gives 206 with that byte.
  Every header that \<^verbatim>\<open>parseRangeHeader\<close> rejects gives 416 with
  \<^verbatim>\<open>Content-Range: bytes */size\<close>; it rejects in particular a header that does not start
  with \<^verbatim>\<open>bytes=\<close>, one without a hyphen after it, one with a bound that is not empty
  and for which \<^verbatim>\<open>parseInt\<close> gives \<^verbatim>\<open>NaN\<close>, \<^verbatim>\<open>bytes=a-b\<close> with \<open>b < a\<close> or with
  \<open>a\<close> at or past the size, and \<^verbatim>\<open>bytes=a-\<close> with \<open>a\<close> at or past the size.
  \<^verbatim>\<open>bytes=a-b\<close> with \<open>a \<le> b < size\<close> gives 206 with \<^verbatim>\<open>Content-Range: bytes a-b/size\<close>,
  \<^verbatim>\<open>Content-Length\<close> \<open>b - a + 1\<close> and the bytes \<open>a\<close> to \<open>b\<close> of the file.
  (Characters after a leading decimal number are ignored by the parser, so such headers
  are served, not rejected.)
\<close>

theorem handleGet_range_memory_fs:
  assumes np: "normalizePath (req_path req) = Some p"
    and isfile: "node_at (volume (filesystem s)) (fs_steps p) = Some (FileNode c)"
    and nolock: "fst (hasWebDAVLock now (lockManager s) p (Some Exclusive)) = False"
    and nowrite: "hasStreamingConflict (lockManager s) p ReadStream = False"
    and hdr: "hdr_range req = Some h" and present: "h \<noteq> []"
    and R: "R = fst (handleGet (memory_vfs gen) now req s)"
  shows
    "(h = ''bytes=-0'' \<longrightarrow> range_not_satisfiable R (length c)) \<and>
     (h = ''bytes=0-0'' \<and> length c = 1 \<longrightarrow> res_status R = 206 \<and> res_body R = c) \<and>
     (parseRangeHeader h (int (length c)) = None \<longrightarrow>
        range_not_satisfiable R (length c)) \<and>
     (startsWith h ''bytes='' = False \<longrightarrow> range_not_satisfiable R (length c)) \<and>
     (CHR ''-'' \<notin> set (drop 6 h) \<longrightarrow> range_not_satisfiable R (length c)) \<and>
     (takeWhile (\<lambda>x. x \<noteq> CHR ''-'') (drop 6 h) \<noteq> [] \<and>
      js_parseInt (takeWhile (\<lambda>x. x \<noteq> CHR ''-'') (drop 6 h)) = None \<longrightarrow>
        range_not_satisfiable R (length c)) \<and>
     (tl (dropWhile (\<lambda>x. x \<noteq> CHR ''-'') (drop 6 h)) \<noteq> [] \<and>
      js_parseInt (tl (dropWhile (\<lambda>x. x \<noteq> CHR ''-'') (drop 6 h))) = None \<longrightarrow>
        range_not_satisfiable R (length c)) \<and>
     (\<forall>a b. h = ''bytes='' @ show_nat a @ ''-'' @ show_nat b \<and> (b < a \<or> length c \<le> a) \<longrightarrow>
        range_not_satisfiable R (length c)) \<and>
     (\<forall>a. h = ''bytes='' @ show_nat a @ ''-'' \<and> length c \<le> a \<longrightarrow>
        range_not_satisfiable R (length c)) \<and>
     (\<forall>a b. h = ''bytes='' @ show_nat a @ ''-'' @ show_nat b \<and> a \<le> b \<and> b < length c \<longrightarrow>
        res_status R = 206 \<and>
        map_of (res_headers R) ''Content-Range'' =
          Some (''bytes '' @ show_nat a @ ''-'' @ show_nat b @ ''/'' @ show_nat (length c)) \<and>
        map_of (res_headers R) ''Content-Length'' = Some (show_nat (b - a + 1)) \<and>
        res_body R = take (b - a + 1) (drop a c))"
proof -
  have ex: "vfs_exists (memory_vfs gen) (filesystem s) p"
    using isfile by (simp add: memory_vfs_def existsSync_def)
  have ty: "vfs_getType (memory_vfs gen) (filesystem s) p \<noteq> Some CollectionT"
    using isfile by (simp add: memory_vfs_def mfs_getType_def)
  from handleGet_file [OF np ex ty nolock nowrite]
  obtain lm2 where run: "handleGet (memory_vfs gen) now req s = sendFile (memory_vfs gen) req s lm2 p"
    by blast
  have Rv: "R = (case parseRangeHeader h (int (length c)) of
        None \<Rightarrow> respond 416 [(''Content-Range'', ''bytes */'' @ show_nat (length c)),
                              (''Accept-Ranges'', ''bytes'')] []
      | Some (start, end) \<Rightarrow>
          respond 206
            [(''Content-Range'',
              ''bytes '' @ show_int start @ ''-'' @ show_int end @ ''/'' @ show_nat (length c)),
             (''Content-Length'', show_int (end - start + 1)),
             (''Accept-Ranges'', ''bytes''),
             (''ETag'', mfs_getEtag gen (filesystem s) p)]
            (take (nat (end - start + 1)) (drop (nat start) c)))"
    unfolding R run using sendFile_memory_fs [OF isfile hdr present] .
  have none: "parseRangeHeader h (int (length c)) = None \<Longrightarrow>
        range_not_satisfiable R (length c)"
    using Rv by (simp add: respond_def range_not_satisfiable_def)
  have c1: "h = ''bytes=-0'' \<Longrightarrow> range_not_satisfiable R (length c)"
  proof -
    assume h: "h = ''bytes=-0''"
    have "parseRangeHeader ''bytes=-0'' (int (length c)) = None"
      by (simp add: parseRangeHeader_def js_parseInt_def is_space_def is_digit_def digits_value_def)
    then show ?thesis using none h by simp
  qed
  have c2: "h = ''bytes=0-0'' \<and> length c = 1 \<Longrightarrow> res_status R = 206 \<and> res_body R = c"
  proof -
    assume h: "h = ''bytes=0-0'' \<and> length c = 1"
    have "parseRangeHeader ''bytes=0-0'' 1 = Some (0, 0)"
      by (simp add: parseRangeHeader_def js_parseInt_def is_space_def is_digit_def digits_value_def)
    then show ?thesis using Rv h by (simp add: respond_def)
  qed
  have c6: "h = ''bytes='' @ show_nat a @ ''-'' @ show_nat b \<and> (b < a \<or> length c \<le> a) \<Longrightarrow>
        range_not_satisfiable R (length c)" for a b
    using parseRangeHeader_closed [of a b "int (length c)"] none by auto
  have c7: "h = ''bytes='' @ show_nat a @ ''-'' \<and> length c \<le> a \<Longrightarrow>
        range_not_satisfiable R (length c)" for a
    using parseRangeHeader_open [of a "int (length c)"] none by auto
  have c8: "h = ''bytes='' @ show_nat a @ ''-'' @ show_nat b \<and> a \<le> b \<and> b < length c \<Longrightarrow>
        res_status R = 206 \<and>
        map_of (res_headers R) ''Content-Range'' =
          Some (''bytes '' @ show_nat a @ ''-'' @ show_nat b @ ''/'' @ show_nat (length c)) \<and>
        map_of (res_headers R) ''Content-Length'' = Some (show_nat (b - a + 1)) \<and>
        res_body R = take (b - a + 1) (drop a c)" for a b
  proof -
    assume h: "h = ''bytes='' @ show_nat a @ ''-'' @ show_nat b \<and> a \<le> b \<and> b < length c"
    then have pr: "parseRangeHeader h (int (length c)) = Some (int a, int b)"
      using parseRangeHeader_closed [of a b "int (length c)"] by auto
    have len: "int b - int a + 1 = int (b - a + 1)" using h by auto
    have "R = respond 206
            [(''Content-Range'',
              ''bytes '' @ show_int (int a) @ ''-'' @ show_int (int b) @ ''/'' @ show_nat (length c)),
             (''Content-Length'', show_int (int b - int a + 1)),
             (''Accept-Ranges'', ''bytes''),
             (''ETag'', mfs_getEtag gen (filesystem s) p)]
            (take (nat (int b - int a + 1)) (drop (nat (int a)) c))"
      using Rv by (simp only: pr option.case prod.case)
    then have "R = respond 206
            [(''Content-Range'',
              ''bytes '' @ show_nat a @ ''-'' @ show_nat b @ ''/'' @ show_nat (length c)),
             (''Content-Length'', show_nat (b - a + 1)),
             (''Accept-Ranges'', ''bytes''),
             (''ETag'', mfs_getEtag gen (filesystem s) p)]
            (take (b - a + 1) (drop a c))"
      by (simp only: len show_int_nat nat_int)
    then show ?thesis by (simp add: respond_def)
  qed
  have g1: "h = ''bytes=-0'' \<longrightarrow> range_not_satisfiable R (length c)"
    using c1 by (rule impI)
  have g2: "h = ''bytes=0-0'' \<and> length c = 1 \<longrightarrow> res_status R = 206 \<and> res_body R = c"
    using c2 by (rule impI)
  have g3: "parseRangeHeader h (int (length c)) = None \<longrightarrow>
        range_not_satisfiable R (length c)"
    using none by (rule impI)
  have g4: "startsWith h ''bytes='' = False \<longrightarrow> range_not_satisfiable R (length c)"
    using parseRangeHeader_no_prefix [of h] none by simp
  have g5: "CHR ''-'' \<notin> set (drop 6 h) \<longrightarrow> range_not_satisfiable R (length c)"
    using parseRangeHeader_no_hyphen [of h] none by simp
  have g5a: "takeWhile (\<lambda>x. x \<noteq> CHR ''-'') (drop 6 h) \<noteq> [] \<and>
      js_parseInt (takeWhile (\<lambda>x. x \<noteq> CHR ''-'') (drop 6 h)) = None \<longrightarrow>
        range_not_satisfiable R (length c)"
    using parseRangeHeader_nan_start [of h "int (length c)"] none by blast
  have g5b: "tl (dropWhile (\<lambda>x. x \<noteq> CHR ''-'') (drop 6 h)) \<noteq> [] \<and>
      js_parseInt (tl (dropWhile (\<lambda>x. x \<noteq> CHR ''-'') (drop 6 h))) = None \<longrightarrow>
        range_not_satisfiable R (length c)"
    using parseRangeHeader_nan_end [of h "int (length c)"] none by blast
  have g6: "\<forall>a b. h = ''bytes='' @ show_nat a @ ''-'' @ show_nat b \<and> (b < a \<or> length c \<le> a) \<longrightarrow>
        range_not_satisfiable R (length c)"
    using c6 by (intro allI impI)
  have g7: "\<forall>a. h = ''bytes='' @ show_nat a @ ''-'' \<and> length c \<le> a \<longrightarrow>
        range_not_satisfiable R (length c)"
    using c7 by (intro allI impI)
  have g8: "\<forall>a b. h = ''bytes='' @ show_nat a @ ''-'' @ show_nat b \<and> a \<le> b \<and> b < length c \<longrightarrow>
        res_status R = 206 \<and>
        map_of (res_headers R) ''Content-Range'' =
          Some (''bytes '' @ show_nat a @ ''-'' @ show_nat b @ ''/'' @ show_nat (length c)) \<and>
        map_of (res_headers R) ''Content-Length'' = Some (show_nat (b - a + 1)) \<and>
        res_body R = take (b - a + 1) (drop a c)"
    using c8 by (intro allI impI)
  show ?thesis by (intro conjI g1 g2 g3 g4 g5 g5a g5b g6 g7 g8)
qed


text \<open>Witness for C6: \<^verbatim>\<open>Range: bytes=1-3\<close> on the five-byte file \<^verbatim>\<open>/a/b\<close>.\<close>

theorem handleGet_range_memory_fs_witness:
  "normalizePath ''/a/b'' = Some ''/a/b'' \<and>
   node_at (volume (filesystem server_with_file)) (fs_steps ''/a/b'') = Some (FileNode ''hello'') \<and>
   fst (hasWebDAVLock 5 (lockManager server_with_file) ''/a/b'' (Some Exclusive)) = False \<and>
   hasStreamingConflict (lockManager server_with_file) ''/a/b'' ReadStream = False \<and>
   res_status (fst (handleGet (memory_vfs example_uuidv4) 5
      ((request_for ''/a/b'')\<lparr>hdr_range := Some ''bytes=1-3''\<rparr>) server_with_file)) = 206 \<and>
   map_of (res_headers (fst (handleGet (memory_vfs example_uuidv4) 5
      ((request_for ''/a/b'')\<lparr>hdr_range := Some ''bytes=1-3''\<rparr>) server_with_file)))
     ''Content-Range'' = Some ''bytes 1-3/5'' \<and>
   map_of (res_headers (fst (handleGet (memory_vfs example_uuidv4) 5
      ((request_for ''/a/b'')\<lparr>hdr_range := Some ''bytes=1-3''\<rparr>) server_with_file)))
     ''Content-Length'' = Some ''3'' \<and>
   res_body (fst (handleGet (memory_vfs example_uuidv4) 5
      ((request_for ''/a/b'')\<lparr>hdr_range := Some ''bytes=1-3''\<rparr>) server_with_file)) = ''ell''"
proof -
  let ?req = "(request_for ''/a/b'')\<lparr>hdr_range := Some ''bytes=1-3''\<rparr>"
  let ?R = "fst (handleGet (memory_vfs example_uuidv4) 5 ?req server_with_file)"
  have np: "normalizePath (req_path ?req) = Some ''/a/b''" by code_simp
  have np': "normalizePath ''/a/b'' = Some ''/a/b''" by code_simp
  have isfile: "node_at (volume (filesystem server_with_file)) (fs_steps ''/a/b'')
                  = Some (FileNode ''hello'')" by code_simp
  have nolock: "fst (hasWebDAVLock 5 (lockManager server_with_file) ''/a/b'' (Some Exclusive)) = False"
    by code_simp
  have nowrite: "hasStreamingConflict (lockManager server_with_file) ''/a/b'' ReadStream = False"
    by code_simp
  have hdr: "hdr_range ?req = Some ''bytes=1-3''" by simp
  have present: "''bytes=1-3'' \<noteq> []" by simp
  have h: "''bytes=1-3'' = ''bytes='' @ show_nat 1 @ ''-'' @ show_nat 3" by code_simp
  have e1: "''bytes '' @ show_nat 1 @ ''-'' @ show_nat 3 @ ''/'' @ show_nat (length ''hello'')
              = ''bytes 1-3/5''" by code_simp
  have e2: "show_nat (3 - 1 + 1) = ''3''" by code_simp
  have e3: "take (3 - 1 + 1) (drop 1 ''hello'') = ''ell''" by code_simp
  have bounds: "(1::nat) \<le> 3 \<and> 3 < length ''hello''" by simp
  note all_cases = handleGet_range_memory_fs [OF np isfile nolock nowrite hdr present refl]
  note satisfiable = all_cases [THEN conjunct2, THEN conjunct2, THEN conjunct2, THEN conjunct2,
      THEN conjunct2, THEN conjunct2, THEN conjunct2, THEN conjunct2, THEN conjunct2]
  have "res_status ?R = 206 \<and>
        map_of (res_headers ?R) ''Content-Range'' =
          Some (''bytes '' @ show_nat 1 @ ''-'' @ show_nat 3 @ ''/'' @ show_nat (length ''hello'')) \<and>
        map_of (res_headers ?R) ''Content-Length'' = Some (show_nat (3 - 1 + 1)) \<and>
        res_body ?R = take (3 - 1 + 1) (drop 1 ''hello'')"
    by (rule satisfiable [THEN spec, THEN spec, THEN mp, OF conjI [OF h bounds]])
  then have "res_status ?R = 206 \<and>
        map_of (res_headers ?R) ''Content-Range'' = Some ''bytes 1-3/5'' \<and>
        map_of (res_headers ?R) ''Content-Length'' = Some ''3'' \<and>
        res_body ?R = ''ell''"
    by (simp only: e1 e2 e3)
  then show ?thesis using np' isfile nolock nowrite by blast
qed


end
